theory Spec2Isabelle
  imports Complex_Main
begin

section \<open>Timer state machine (timer\_manager.py)\<close>

text \<open>
  The enumerations of the two modules. \<open>ConfidenceDecision\<close> lives in
  cognitive\_profile.py and is imported by \<open>TimerManager.on_activity_detected\<close>.
\<close>

datatype TimerState = STOPPED | RUNNING | BUFFER | PAUSED | COGNITIVE_CHECK

datatype ConfidenceDecision = AUTO_ACCEPT | AUTO_DISCARD | ASK_USER

text \<open>
  The four Qt signals of \<open>TimerManager\<close>. An emission is recorded by appending the
  signal, with its arguments, to a log kept in the state. The third argument of
  \<open>cognitive_check_needed\<close> is an \<open>object\<close>: a decision, or Python's \<open>None\<close>.
\<close>

datatype signal =
    state_changed TimerState
  | time_updated int
  | cognitive_check_needed int real "ConfidenceDecision option"
  | cognitive_auto_decided bool int real

text \<open>
  The fields assigned in \<open>TimerManager.__init__\<close>, without the leading underscore.
  Python integers are unbounded, hence \<open>int\<close>; a confidence is a float, modelled as a
  real number. The two \<open>QTimer\<close> objects are represented by whether they are running.
  The decision callback is a function from the idle seconds to a pair
  (confidence, decision), or \<open>None\<close>.
\<close>

record TimerManager =
  state :: TimerState
  total_seconds :: int
  buffer_seconds :: int
  pause_timestamp :: int
  idle_seconds :: int
  t_limit_minutes :: int
  cognitive_decision_callback :: "(int \<Rightarrow> real \<times> ConfidenceDecision) option"
  last_auto_decision :: "(bool \<times> int \<times> real) option"
  tick_timer_active :: bool
  buffer_timer_active :: bool
  signals :: "signal list"

definition init_timer :: TimerManager where
  "init_timer = \<lparr> state = STOPPED, total_seconds = 0, buffer_seconds = 0,
     pause_timestamp = 0, idle_seconds = 0, t_limit_minutes = 20,
     cognitive_decision_callback = None, last_auto_decision = None,
     tick_timer_active = False, buffer_timer_active = False, signals = [] \<rparr>"

definition emit :: "signal \<Rightarrow> TimerManager \<Rightarrow> TimerManager" where
  "emit sg m = m\<lparr>signals := signals m @ [sg]\<rparr>"

definition set_t_limit_minutes :: "int \<Rightarrow> TimerManager \<Rightarrow> TimerManager" where
  "set_t_limit_minutes v m = m\<lparr>t_limit_minutes := max 15 (min 25 v)\<rparr>"

definition set_cognitive_decision_callback ::
  "(int \<Rightarrow> real \<times> ConfidenceDecision) option \<Rightarrow> TimerManager \<Rightarrow> TimerManager" where
  "set_cognitive_decision_callback cb m = m\<lparr>cognitive_decision_callback := cb\<rparr>"

definition set_total_seconds :: "int \<Rightarrow> TimerManager \<Rightarrow> TimerManager" where
  "set_total_seconds seconds m =
     (let m1 = m\<lparr>total_seconds := max 0 seconds\<rparr>
      in emit (time_updated (total_seconds m1)) m1)"

definition set_state :: "TimerState \<Rightarrow> TimerManager \<Rightarrow> TimerManager" where
  "set_state new_state m =
     (if state m \<noteq> new_state
      then emit (state_changed new_state) (m\<lparr>state := new_state\<rparr>)
      else m)"

definition start :: "TimerManager \<Rightarrow> TimerManager" where
  "start m =
     (if state m = STOPPED
      then (set_state RUNNING m)\<lparr>tick_timer_active := True\<rparr>
      else m)"

definition stop :: "TimerManager \<Rightarrow> TimerManager" where
  "stop m =
     (let m1 = m\<lparr>tick_timer_active := False, buffer_timer_active := False\<rparr>;
          m2 = set_state STOPPED m1
      in m2\<lparr>buffer_seconds := 0, idle_seconds := 0\<rparr>)"

definition reset :: "TimerManager \<Rightarrow> TimerManager" where
  "reset m = emit (time_updated 0) ((stop m)\<lparr>total_seconds := 0\<rparr>)"

text \<open>
  \<open>on_activity_detected\<close>, branch by branch in the order of the source. In the PAUSED
  branch the callback, when present, is called with the idle seconds.
\<close>

definition on_activity_detected :: "TimerManager \<Rightarrow> TimerManager" where
  "on_activity_detected m =
    (case state m of
       STOPPED \<Rightarrow> (set_state RUNNING m)\<lparr>tick_timer_active := True\<rparr>
     | RUNNING \<Rightarrow> m
     | BUFFER \<Rightarrow>
         set_state RUNNING (m\<lparr>buffer_timer_active := False, buffer_seconds := 0\<rparr>)
     | PAUSED \<Rightarrow>
         (if idle_seconds m \<le> t_limit_minutes m * 60 then
            (case cognitive_decision_callback m of
               Some callback \<Rightarrow>
                 (let (confidence, decision) = callback (idle_seconds m) in
                  if decision = AUTO_ACCEPT then
                    (let m1 = m\<lparr>total_seconds := total_seconds m + idle_seconds m\<rparr>;
                         m2 = emit (time_updated (total_seconds m1)) m1;
                         m3 = m2\<lparr>last_auto_decision :=
                                   Some (True, idle_seconds m2, confidence)\<rparr>;
                         m4 = emit (cognitive_auto_decided True (idle_seconds m3) confidence) m3;
                         m5 = m4\<lparr>idle_seconds := 0\<rparr>;
                         m6 = set_state RUNNING m5
                     in m6\<lparr>tick_timer_active := True\<rparr>)
                  else if decision = AUTO_DISCARD then
                    (let m1 = m\<lparr>last_auto_decision :=
                                   Some (False, idle_seconds m, confidence)\<rparr>;
                         m2 = emit (cognitive_auto_decided False (idle_seconds m1) confidence) m1;
                         m3 = m2\<lparr>idle_seconds := 0\<rparr>;
                         m4 = set_state RUNNING m3
                     in m4\<lparr>tick_timer_active := True\<rparr>)
                  else
                    (let m1 = set_state COGNITIVE_CHECK m
                     in emit (cognitive_check_needed (idle_seconds m1) confidence
                                (Some decision)) m1))
             | None \<Rightarrow>
                 (let m1 = set_state COGNITIVE_CHECK m
                  in emit (cognitive_check_needed (idle_seconds m1) (1 / 2) None) m1))
          else
            (set_state RUNNING (m\<lparr>idle_seconds := 0\<rparr>))\<lparr>tick_timer_active := True\<rparr>)
     | COGNITIVE_CHECK \<Rightarrow> m)"

definition on_activity_stopped :: "TimerManager \<Rightarrow> TimerManager" where
  "on_activity_stopped m =
     (if state m = RUNNING
      then (set_state BUFFER m)\<lparr>buffer_seconds := 0, buffer_timer_active := True\<rparr>
      else m)"

definition on_cognitive_response :: "bool \<Rightarrow> TimerManager \<Rightarrow> TimerManager" where
  "on_cognitive_response was_thinking m =
     (if state m \<noteq> COGNITIVE_CHECK then m
      else
        (let m1 = (if was_thinking
                   then (let a = m\<lparr>total_seconds := total_seconds m + idle_seconds m\<rparr>
                         in emit (time_updated (total_seconds a)) a)
                   else m);
             m2 = m1\<lparr>idle_seconds := 0\<rparr>;
             m3 = set_state RUNNING m2
         in m3\<lparr>tick_timer_active := True\<rparr>))"

text \<open>
  \<open>undo_last_auto_decision\<close> returns \<open>Optional[Tuple[bool, int]]\<close> and mutates the
  manager: the model returns the pair of the result and the new state.
\<close>

definition undo_last_auto_decision ::
  "TimerManager \<Rightarrow> (bool \<times> int) option \<times> TimerManager" where
  "undo_last_auto_decision m =
     (case last_auto_decision m of
        None \<Rightarrow> (None, m)
      | Some (was_accepted, seconds, _) \<Rightarrow>
          (let m1 = (if was_accepted
                     then (let a = m\<lparr>total_seconds := max 0 (total_seconds m - seconds)\<rparr>
                           in emit (time_updated (total_seconds a)) a)
                     else (let a = m\<lparr>total_seconds := total_seconds m + seconds\<rparr>
                           in emit (time_updated (total_seconds a)) a))
           in (Some (was_accepted, seconds), m1\<lparr>last_auto_decision := None\<rparr>)))"

definition on_tick :: "TimerManager \<Rightarrow> TimerManager" where
  "on_tick m =
     (if state m = RUNNING then
        (let a = m\<lparr>total_seconds := total_seconds m + 1\<rparr>
         in emit (time_updated (total_seconds a)) a)
      else if state m = BUFFER then
        (let a = m\<lparr>total_seconds := total_seconds m + 1,
                    buffer_seconds := buffer_seconds m + 1\<rparr>
         in emit (time_updated (total_seconds a)) a)
      else if state m = PAUSED then
        (let a = m\<lparr>idle_seconds := idle_seconds m + 1\<rparr>
         in if idle_seconds a > t_limit_minutes a * 60
            then a\<lparr>idle_seconds := 0\<rparr>
            else a)
      else m)"

definition on_buffer_expired :: "TimerManager \<Rightarrow> TimerManager" where
  "on_buffer_expired m =
     (if state m = BUFFER
      then (set_state PAUSED m)\<lparr>idle_seconds := 0\<rparr>
      else m)"

text \<open>
  The host drives the manager through its public methods and the two timers. A timer's
  slot runs only while that timer is active; the buffer timer is single-shot, so it is
  inactive once it has fired.
\<close>

datatype event =
    Start | Stop | Reset
  | ActivityDetected | ActivityStopped
  | CognitiveResponse bool
  | UndoLastAutoDecision
  | Tick | BufferExpired
  | SetTotalSeconds int
  | SetTLimit int
  | SetCallback "(int \<Rightarrow> real \<times> ConfidenceDecision) option"

fun step :: "TimerManager \<Rightarrow> event \<Rightarrow> TimerManager" where
  "step m Start = start m"
| "step m Stop = stop m"
| "step m Reset = reset m"
| "step m ActivityDetected = on_activity_detected m"
| "step m ActivityStopped = on_activity_stopped m"
| "step m (CognitiveResponse b) = on_cognitive_response b m"
| "step m UndoLastAutoDecision = snd (undo_last_auto_decision m)"
| "step m Tick = (if tick_timer_active m then on_tick m else m)"
| "step m BufferExpired =
     (if buffer_timer_active m
      then on_buffer_expired (m\<lparr>buffer_timer_active := False\<rparr>)
      else m)"
| "step m (SetTotalSeconds n) = set_total_seconds n m"
| "step m (SetTLimit v) = set_t_limit_minutes v m"
| "step m (SetCallback cb) = set_cognitive_decision_callback cb m"

definition run :: "TimerManager \<Rightarrow> event list \<Rightarrow> TimerManager" where
  "run m evs = foldl step m evs"

text \<open>
  The invariant behind the non-negative total: the idle counter and the seconds stored
  in the undo slot are non-negative as well, since both are added to the total.
\<close>

text \<open>Two decision callbacks with a fixed answer, used in the worked examples.\<close>

definition always_discard :: "int \<Rightarrow> real \<times> ConfidenceDecision" where
  "always_discard idle = (1 / 10, AUTO_DISCARD)"

definition always_accept :: "int \<Rightarrow> real \<times> ConfidenceDecision" where
  "always_accept idle = (9 / 10, AUTO_ACCEPT)"

definition timer_inv :: "TimerManager \<Rightarrow> bool" where
  "timer_inv m \<longleftrightarrow>
     0 \<le> total_seconds m \<and> 0 \<le> idle_seconds m \<and>
     (case last_auto_decision m of None \<Rightarrow> True | Some (_, seconds, _) \<Rightarrow> 0 \<le> seconds)"


section \<open>Cognitive profile (cognitive\_profile.py)\<close>

text \<open>
  A float is modelled by the real number it denotes, and the clock (\<open>time.time()\<close>) and
  the local hour (\<open>datetime.now().hour\<close>) are passed in as the arguments \<open>now\<close> and
  \<open>hour\<close>. The exceptions the arithmetic and the indexing can raise are values of
  \<open>py_error\<close>.

  Where a result depends on how a float operation rounds (the decay of the counts, the
  trust level and its threshold) each operation is followed by \<open>round_double\<close>, the
  rounding of its exact result to the nearest double. The confidence score is kept in
  exact arithmetic.
\<close>

datatype PausePattern = MICRO_THINKING | PLANNING_PAUSE | CONTEXT_SWITCH | BREAK | UNKNOWN

datatype py_error = ValueError | ZeroDivisionError | IndexError

record ActivityBurst =
  burst_timestamp :: real
  burst_duration_seconds :: real
  intensity :: real
  event_count :: int

record PauseEvent =
  timestamp :: real
  duration_seconds :: int
  was_validated :: bool
  pattern :: PausePattern
  pre_pause_intensity :: real
  session_age_minutes :: int
  hour_of_day :: int
  project_hash :: "string option"

record IdleBucket =
  min_seconds :: int
  max_seconds :: int
  total_count :: int
  validated_count :: int

definition validation_rate :: "IdleBucket \<Rightarrow> real" where
  "validation_rate b =
     (if total_count b = 0 then 1 / 2
      else real_of_int (validated_count b) / real_of_int (total_count b))"

text \<open>
  The Wilson lower bound. \<open>math.sqrt\<close> raises \<open>ValueError\<close> on a negative argument,
  and a division raises \<open>ZeroDivisionError\<close> on a zero divisor; both are branches here,
  in the order in which the source evaluates them.
\<close>

definition confidence :: "IdleBucket \<Rightarrow> py_error + real" where
  "confidence b =
     (if total_count b = 0 then Inr 0
      else
        (let n = real_of_int (total_count b);
             p = validation_rate b;
             z = 196 / 100;
             denominator = 1 + z * z / n;
             centre_adjusted_probability = p + z * z / (2 * n);
             radicand = (p * (1 - p) + z * z / (4 * n)) / n
         in if radicand < 0 then Inl ValueError
            else if denominator = 0 then Inl ZeroDivisionError
            else Inr (max 0 (min 1
                   ((centre_adjusted_probability - z * sqrt radicand) / denominator)))))"

record ProjectModifier =
  file_hash :: string
  last_filename :: string
  pm_total_validations :: int
  pm_total_rejections :: int
  avg_validated_idle :: real
  session_count :: int
  total_work_time :: int

definition new_project_modifier :: "string \<Rightarrow> ProjectModifier" where
  "new_project_modifier h = \<lparr> file_hash = h, last_filename = [], pm_total_validations = 0,
     pm_total_rejections = 0, avg_validated_idle = 300, session_count = 0,
     total_work_time = 0 \<rparr>"



subsection \<open>Class constants\<close>

text \<open>
  The float constants are given by their decimal literals; the double a literal denotes
  is \<open>round_double\<close> of it.
\<close>

definition BUCKET_RANGES :: "(int \<times> int) list" where
  "BUCKET_RANGES = [(0, 180), (180, 420), (420, 900), (900, 1500), (1500, 3600)]"

definition DECAY_FACTOR :: real where "DECAY_FACTOR = 95 / 100"
definition MIN_SAMPLES_FOR_AUTO :: int where "MIN_SAMPLES_FOR_AUTO = 10"
definition TRUST_LEVEL_HIGH :: real where "TRUST_LEVEL_HIGH = 8 / 10"
definition TRUST_LEVEL_MEDIUM :: real where "TRUST_LEVEL_MEDIUM = 5 / 10"

text \<open>\<open>self._max_recent_pauses\<close> is assigned once, in \<open>__init__\<close>.\<close>

definition max_recent_pauses :: nat where "max_recent_pauses = 100"

subsection \<open>Python helpers\<close>

text \<open>
  \<open>str\<close> of an integer, as the f-string of \<open>_bucket_key\<close> formats it.
\<close>

fun str_nat :: "nat \<Rightarrow> string" where
  "str_nat n =
     (if n < 10 then [''0123456789'' ! n]
      else str_nat (n div 10) @ [''0123456789'' ! (n mod 10)])"

declare str_nat.simps [simp del]

definition str_int :: "int \<Rightarrow> string" where
  "str_int i = (if i < 0 then CHR ''-'' # str_nat (nat (- i)) else str_nat (nat i))"

text \<open>
  IEEE 754 double precision, round to nearest, ties to even: a non-zero \<open>x\<close> with
  \<open>2^e \<le> |x| < 2^(e+1)\<close> is rounded to the nearest multiple of \<open>2^(e-52)\<close>, a tie going
  to the even multiple. The exponent is not bounded: the model covers the normal range
  of the format (magnitudes from \<open>2^(-1022)\<close> up to \<open>2^1024\<close>), outside of which Python
  rounds to a subnormal or raises \<open>OverflowError\<close>. A float literal such as \<open>0.95\<close> is
  \<open>round_double (95 / 100)\<close>; the true division \<open>a / b\<close> of two integers is correctly
  rounded, \<open>round_double (a / b)\<close>; an integer becomes a float by \<open>round_double\<close>.
\<close>

definition round_half_even :: "real \<Rightarrow> int" where
  "round_half_even x =
     (let f = \<lfloor>x\<rfloor>; r = x - of_int f
      in if r < 1 / 2 then f else if r > 1 / 2 then f + 1
         else if even f then f else f + 1)"

definition pow2 :: "int \<Rightarrow> real" where
  "pow2 k = (if 0 \<le> k then 2 ^ nat k else 1 / 2 ^ nat (- k))"

definition binade :: "real \<Rightarrow> int" where
  "binade x = \<lfloor>log 2 \<bar>x\<bar>\<rfloor>"

definition round_double :: "real \<Rightarrow> real" where
  "round_double x =
     (if x = 0 then 0
      else (let u = pow2 (binade x - 52)
            in sgn x * of_int (round_half_even (\<bar>x\<bar> / u)) * u))"

text \<open>\<open>int\<close> of a float truncates toward zero.\<close>

definition py_int :: "real \<Rightarrow> int" where
  "py_int x = (if x \<ge> 0 then \<lfloor>x\<rfloor> else \<lceil>x\<rceil>)"

text \<open>The slice \<open>xs[-n:]\<close> for \<open>n > 0\<close>: the last \<open>n\<close> elements, or all of a shorter list.\<close>

definition py_last_n :: "nat \<Rightarrow> 'a list \<Rightarrow> 'a list" where
  "py_last_n n xs = drop (length xs - n) xs"

text \<open>
  A Python \<open>dict\<close> keeps insertion order, and \<open>_get_bucket\<close> reads the last key, so the
  bucket table is an association list. \<open>dict_set\<close> is the assignment \<open>d[k] = v\<close>;
  \<open>dict_update\<close> mutates the object stored under a key in place; \<open>dict_get\<close> is
  \<open>d.get(k, default)\<close> on an optional field.
\<close>

definition dict_set :: "'k \<Rightarrow> 'v \<Rightarrow> ('k \<times> 'v) list \<Rightarrow> ('k \<times> 'v) list" where
  "dict_set k v d =
     (if k \<in> fst ` set d then map (\<lambda>(k', v'). if k' = k then (k', v) else (k', v')) d
      else d @ [(k, v)])"

definition dict_update :: "'k \<Rightarrow> ('v \<Rightarrow> 'v) \<Rightarrow> ('k \<times> 'v) list \<Rightarrow> ('k \<times> 'v) list" where
  "dict_update k f d = map (\<lambda>(k', v'). if k' = k then (k', f v') else (k', v')) d"

definition dict_get :: "'a option \<Rightarrow> 'a \<Rightarrow> 'a" where
  "dict_get field dflt = (case field of None \<Rightarrow> dflt | Some v \<Rightarrow> v)"

text \<open>A string is true in a condition when it is not empty, \<open>None\<close> is false.\<close>

definition truthy :: "string option \<Rightarrow> bool" where
  "truthy h = (case h of None \<Rightarrow> False | Some s \<Rightarrow> s \<noteq> [])"

subsection \<open>The profile\<close>

record CognitiveProfile =
  buckets :: "(string \<times> IdleBucket) list"
  recent_pauses :: "PauseEvent list"
  activity_bursts :: "ActivityBurst list"
  last_activity_time :: real
  activity_count_window :: int
  window_start_time :: real
  session_start_time :: real
  consecutive_validated :: int
  consecutive_rejected :: int
  project_modifiers :: "(string \<times> ProjectModifier) list"
  current_project_hash :: "string option"
  total_validations :: int
  total_rejections :: int
  longest_validated_streak :: int
  current_streak :: int
  focus_lost_count :: real
  repeated_rejection_patterns :: "(int \<times> real) list"
  user_bias :: real
  implicit_trust_enabled :: bool
  notification_mode :: bool
  last_notification_time :: real
  pending_undo :: "(real \<times> int) option"

definition range_key :: "int \<Rightarrow> int \<Rightarrow> string" where
  "range_key min_sec max_sec = str_int min_sec @ ''-'' @ str_int max_sec"

fun bucket_key_loop :: "(int \<times> int) list \<Rightarrow> int \<Rightarrow> string option" where
  "bucket_key_loop [] seconds = None"
| "bucket_key_loop ((min_sec, max_sec) # rs) seconds =
     (if min_sec \<le> seconds \<and> seconds < max_sec then Some (range_key min_sec max_sec)
      else bucket_key_loop rs seconds)"

definition bucket_key :: "int \<Rightarrow> string" where
  "bucket_key seconds =
     (case bucket_key_loop BUCKET_RANGES seconds of
        Some k \<Rightarrow> k
      | None \<Rightarrow> range_key (fst (last BUCKET_RANGES)) (snd (last BUCKET_RANGES)))"

definition init_buckets :: "(string \<times> IdleBucket) list" where
  "init_buckets =
     foldl (\<lambda>d (min_sec, max_sec).
              dict_set (bucket_key min_sec)
                \<lparr> min_seconds = min_sec, max_seconds = max_sec,
                  total_count = 0, validated_count = 0 \<rparr> d)
       [] BUCKET_RANGES"

definition init_profile :: CognitiveProfile where
  "init_profile = \<lparr> buckets = init_buckets, recent_pauses = [], activity_bursts = [],
     last_activity_time = 0, activity_count_window = 0, window_start_time = 0,
     session_start_time = 0, consecutive_validated = 0, consecutive_rejected = 0,
     project_modifiers = [], current_project_hash = None,
     total_validations = 0, total_rejections = 0, longest_validated_streak = 0,
     current_streak = 0, focus_lost_count = 0, repeated_rejection_patterns = [],
     user_bias = 0, implicit_trust_enabled = False, notification_mode = False,
     last_notification_time = 0, pending_undo = None \<rparr>"

text \<open>
  \<open>_get_bucket\<close> returns a reference to a bucket object of the table. The model
  returns the entry, key and bucket: the key says which object a later mutation changes.
  The default argument of \<open>dict.get\<close> is evaluated before the call, so an empty table
  raises \<open>IndexError\<close>.
\<close>

definition get_bucket :: "(string \<times> IdleBucket) list \<Rightarrow> int \<Rightarrow> py_error + (string \<times> IdleBucket)" where
  "get_bucket bs seconds =
     (let key = bucket_key seconds
      in if bs = [] then Inl IndexError
         else (case map_of bs key of Some b \<Rightarrow> Inr (key, b) | None \<Rightarrow> Inr (last bs)))"

definition get_pre_pause_intensity :: "CognitiveProfile \<Rightarrow> real" where
  "get_pre_pause_intensity p =
     (if activity_bursts p = [] then 1 / 2
      else
        (let (total_weight, weighted_intensity) =
               foldl (\<lambda>(tw, wi) (i, burst).
                        (let weight = DECAY_FACTOR ^ i
                         in (tw + weight, wi + intensity burst * weight)))
                 (0, 0) (enumerate 0 (rev (py_last_n 5 (activity_bursts p))))
         in if total_weight = 0 then 1 / 2 else weighted_intensity / total_weight))"

definition classify_pause :: "CognitiveProfile \<Rightarrow> int \<Rightarrow> real \<Rightarrow> PausePattern" where
  "classify_pause p duration pre_intensity =
     (let minutes = real_of_int duration / 60 in
      if minutes \<le> 3 \<and> pre_intensity > 1 / 2 then MICRO_THINKING
      else if 5 \<le> minutes \<and> minutes \<le> 12 then PLANNING_PAUSE
      else
        (let recent_rejections =
               (\<Sum>e \<leftarrow> filter (\<lambda>e. \<not> was_validated e \<and> duration_seconds e < 300)
                          (py_last_n 5 (recent_pauses p)). (1::int))
         in if recent_rejections \<ge> 2 \<and> minutes < 10 then CONTEXT_SWITCH
            else if minutes > 15 then BREAK
            else UNKNOWN))"

subsection \<open>Confidence scoring\<close>


definition bucket_total :: "(string \<times> IdleBucket) list \<Rightarrow> int" where
  "bucket_total bs = (\<Sum>(k, b) \<leftarrow> bs. total_count b)"


subsection \<open>Learning\<close>

text \<open>
  \<open>int(count * DECAY_FACTOR)\<close>: the integer count is converted to a float, multiplied by
  the double nearest to 0.95 with the product rounded to a double, and the result
  truncated toward zero.
\<close>

definition decay_count :: "int \<Rightarrow> int" where
  "decay_count c =
     py_int (round_double (round_double (real_of_int c) * round_double DECAY_FACTOR))"

definition decay_bucket :: "IdleBucket \<Rightarrow> IdleBucket" where
  "decay_bucket b = b\<lparr>total_count := decay_count (total_count b),
                       validated_count := decay_count (validated_count b)\<rparr>"

definition apply_decay_to_buckets :: "(string \<times> IdleBucket) list \<Rightarrow> (string \<times> IdleBucket) list" where
  "apply_decay_to_buckets bs =
     (let total = bucket_total bs
      in if total > 0 \<and> total mod 50 = 0
         then map (\<lambda>(k, b). (k, decay_bucket b)) bs
         else bs)"

text \<open>
  The project table is a dictionary too. \<open>_update_project_modifier\<close> mutates the object
  stored under the key; the division of the running mean is by the count just
  incremented.
\<close>

definition update_project_modifier ::
  "(string \<times> ProjectModifier) list \<Rightarrow> string \<Rightarrow> int \<Rightarrow> bool \<Rightarrow>
   py_error + (string \<times> ProjectModifier) list" where
  "update_project_modifier pms h idle validated =
     (let pms1 = (if h \<notin> fst ` set pms then dict_set h (new_project_modifier h) pms else pms);
          modifier = the (map_of pms1 h)
      in if validated then
           (let m1 = modifier\<lparr>pm_total_validations := pm_total_validations modifier + 1\<rparr>
            in if pm_total_validations m1 = 0 then Inl ZeroDivisionError
               else Inr (dict_set h (m1\<lparr>avg_validated_idle :=
                     (avg_validated_idle m1 * real_of_int (pm_total_validations m1 - 1)
                        + real_of_int idle) / real_of_int (pm_total_validations m1)\<rparr>) pms1))
         else Inr (dict_set h
                     (modifier\<lparr>pm_total_rejections := pm_total_rejections modifier + 1\<rparr>) pms1))"

text \<open>
  The first statements of \<open>record_validation\<close>: the matched bucket is incremented in
  place, then the decay runs over the whole table.
\<close>

definition bump_bucket :: "bool \<Rightarrow> IdleBucket \<Rightarrow> IdleBucket" where
  "bump_bucket validated b =
     (let b1 = b\<lparr>total_count := total_count b + 1\<rparr>
      in if validated then b1\<lparr>validated_count := validated_count b1 + 1\<rparr> else b1)"

definition record_validation ::
  "CognitiveProfile \<Rightarrow> int \<Rightarrow> bool \<Rightarrow> string option \<Rightarrow> real \<Rightarrow> int \<Rightarrow>
   py_error + CognitiveProfile" where
  "record_validation p idle validated proj now hour =
    (case get_bucket (buckets p) idle of
       Inl e \<Rightarrow> Inl e
     | Inr (key, bucket) \<Rightarrow>
    (let p1 = p\<lparr>buckets := dict_update key (bump_bucket validated) (buckets p)\<rparr>;
         p2 = p1\<lparr>buckets := apply_decay_to_buckets (buckets p1)\<rparr>;
         p3 = (if validated then
                 (let a = p2\<lparr>total_validations := total_validations p2 + 1,
                              consecutive_validated := consecutive_validated p2 + 1,
                              consecutive_rejected := 0,
                              current_streak := current_streak p2 + 1\<rparr>
                  in if current_streak a > longest_validated_streak a
                     then a\<lparr>longest_validated_streak := current_streak a\<rparr> else a)
               else p2\<lparr>total_rejections := total_rejections p2 + 1,
                        consecutive_rejected := consecutive_rejected p2 + 1,
                        consecutive_validated := 0,
                        current_streak := 0\<rparr>);
         pre_intensity = get_pre_pause_intensity p3;
         pat = classify_pause p3 idle pre_intensity;
         session_age = (if session_start_time p3 > 0
                        then py_int ((now - session_start_time p3) / 60) else 0);
         ev = \<lparr> timestamp = now, duration_seconds = idle, was_validated = validated,
                pattern = pat, pre_pause_intensity = pre_intensity,
                session_age_minutes = session_age, hour_of_day = hour,
                project_hash = proj \<rparr>;
         p4 = p3\<lparr>recent_pauses := recent_pauses p3 @ [ev]\<rparr>;
         p5 = (if length (recent_pauses p4) > max_recent_pauses
               then p4\<lparr>recent_pauses := py_last_n max_recent_pauses (recent_pauses p4)\<rparr>
               else p4)
     in case (if truthy proj
              then update_project_modifier (project_modifiers p5) (the proj) idle validated
              else Inr (project_modifiers p5)) of
          Inl e \<Rightarrow> Inl e
        | Inr pms \<Rightarrow>
         (let p6 = p5\<lparr>project_modifiers := pms\<rparr>;
              p7 = (if \<not> validated then
                      (let a = p6\<lparr>repeated_rejection_patterns :=
                                   repeated_rejection_patterns p6 @ [(idle, pre_intensity)]\<rparr>
                       in if length (repeated_rejection_patterns a) > 20
                          then a\<lparr>repeated_rejection_patterns :=
                                   py_last_n 20 (repeated_rejection_patterns a)\<rparr>
                          else a)
                    else p6)
          in Inr (p7\<lparr>focus_lost_count := max 0 (focus_lost_count p7 - 1)\<rparr>))))"

text \<open>
  The host calls \<open>record_validation\<close> once per resolved pause; a call is given by its
  arguments and the clock readings. An exception ends the sequence.
\<close>

fun record_validations ::
  "CognitiveProfile \<Rightarrow> (int \<times> bool \<times> string option \<times> real \<times> int) list \<Rightarrow>
   py_error + CognitiveProfile" where
  "record_validations p [] = Inr p"
| "record_validations p ((idle, validated, proj, now, hour) # calls) =
     (case record_validation p idle validated proj now hour of
        Inl e \<Rightarrow> Inl e
      | Inr p' \<Rightarrow> record_validations p' calls)"

subsection \<open>Negative signals and trust\<close>

definition record_focus_lost :: "CognitiveProfile \<Rightarrow> CognitiveProfile" where
  "record_focus_lost p = p\<lparr>focus_lost_count := focus_lost_count p + 1\<rparr>"

definition record_focus_regained :: "CognitiveProfile \<Rightarrow> CognitiveProfile" where
  "record_focus_regained p = p\<lparr>focus_lost_count := max 0 (focus_lost_count p - 5 / 10)\<rparr>"

text \<open>
  \<open>get_trust_level\<close>, one rounding per float operation, in the order in which Python
  evaluates the expression: the three integer divisions are correctly rounded, the
  subtraction and the doubling of the consistency round, and
  \<open>(a * 0.4) + (b * 0.4) + c\<close> is two rounded products, their rounded sum, and the rounded
  sum of that with \<open>c\<close>. \<open>abs\<close>, \<open>min\<close> and the comparison with the threshold are exact.
\<close>

definition get_trust_level :: "CognitiveProfile \<Rightarrow> real" where
  "get_trust_level p =
     (let total_samples = total_validations p + total_rejections p
      in if total_samples < MIN_SAMPLES_FOR_AUTO then 0
         else
           (let sample_confidence = min 1 (round_double (real_of_int total_samples / 100));
                consistency =
                  (if total_samples > 0
                   then round_double
                          (\<bar>round_double
                              (round_double (real_of_int (total_validations p)
                                               / real_of_int total_samples)
                               - 5 / 10)\<bar> * 2)
                   else 5 / 10);
                streak_bonus = min (round_double (2 / 10))
                                   (round_double (real_of_int (longest_validated_streak p) / 50));
                trust = round_double
                          (round_double
                             (round_double (sample_confidence * round_double (4 / 10))
                              + round_double (consistency * round_double (4 / 10)))
                           + streak_bonus)
            in min 1 trust))"

definition should_use_notification :: "CognitiveProfile \<Rightarrow> bool" where
  "should_use_notification p =
     (if \<not> implicit_trust_enabled p then False
      else get_trust_level p \<ge> round_double TRUST_LEVEL_HIGH)"

definition set_user_bias :: "real \<Rightarrow> CognitiveProfile \<Rightarrow> CognitiveProfile" where
  "set_user_bias bias p = p\<lparr>user_bias := max (- 1) (min 1 bias)\<rparr>"

definition enable_implicit_trust :: "bool \<Rightarrow> CognitiveProfile \<Rightarrow> CognitiveProfile" where
  "enable_implicit_trust enabled p = p\<lparr>implicit_trust_enabled := enabled\<rparr>"

subsection \<open>Serialization\<close>

text \<open>
  The dictionaries that \<open>to_dict\<close> writes and \<open>from_dict\<close> reads. Every key may be
  missing, so every field is optional. \<open>pd_other_keys\<close> says whether the top-level
  dictionary holds a key that \<open>from_dict\<close> never reads: such a dictionary is not empty,
  and \<open>from_dict\<close> returns early only on an empty (or \<open>None\<close>) one.
\<close>

record bucket_data =
  bd_min :: "int option"
  bd_max :: "int option"
  bd_total :: "int option"
  bd_validated :: "int option"

record modifier_data =
  md_file_hash :: "string option"
  md_last_filename :: "string option"
  md_total_validations :: "int option"
  md_total_rejections :: "int option"
  md_avg_validated_idle :: "real option"
  md_session_count :: "int option"
  md_total_work_time :: "int option"

record profile_data =
  pd_buckets :: "(string \<times> bucket_data) list option"
  pd_total_validations :: "int option"
  pd_total_rejections :: "int option"
  pd_longest_validated_streak :: "int option"
  pd_user_bias :: "real option"
  pd_implicit_trust_enabled :: "bool option"
  pd_project_modifiers :: "(string \<times> modifier_data) list option"
  pd_other_keys :: bool

definition empty_data :: profile_data where
  "empty_data = \<lparr> pd_buckets = None, pd_total_validations = None, pd_total_rejections = None,
     pd_longest_validated_streak = None, pd_user_bias = None,
     pd_implicit_trust_enabled = None, pd_project_modifiers = None, pd_other_keys = False \<rparr>"

definition bucket_to_data :: "IdleBucket \<Rightarrow> bucket_data" where
  "bucket_to_data b = \<lparr> bd_min = Some (min_seconds b), bd_max = Some (max_seconds b),
     bd_total = Some (total_count b), bd_validated = Some (validated_count b) \<rparr>"

definition modifier_to_data :: "ProjectModifier \<Rightarrow> modifier_data" where
  "modifier_to_data m = \<lparr> md_file_hash = Some (file_hash m),
     md_last_filename = Some (last_filename m),
     md_total_validations = Some (pm_total_validations m),
     md_total_rejections = Some (pm_total_rejections m),
     md_avg_validated_idle = Some (avg_validated_idle m),
     md_session_count = Some (session_count m),
     md_total_work_time = Some (total_work_time m) \<rparr>"

definition to_dict :: "CognitiveProfile \<Rightarrow> profile_data" where
  "to_dict p = \<lparr>
     pd_buckets = Some (map (\<lambda>(k, b). (k, bucket_to_data b)) (buckets p)),
     pd_total_validations = Some (total_validations p),
     pd_total_rejections = Some (total_rejections p),
     pd_longest_validated_streak = Some (longest_validated_streak p),
     pd_user_bias = Some (user_bias p),
     pd_implicit_trust_enabled = Some (implicit_trust_enabled p),
     pd_project_modifiers =
       Some (map (\<lambda>(k, m). (k, modifier_to_data m)) (project_modifiers p)),
     pd_other_keys = False \<rparr>"

definition load_bucket :: "bucket_data \<Rightarrow> IdleBucket \<Rightarrow> IdleBucket" where
  "load_bucket b_data b = b\<lparr>total_count := dict_get (bd_total b_data) 0,
                             validated_count := dict_get (bd_validated b_data) 0\<rparr>"

definition load_modifier :: "string \<Rightarrow> modifier_data \<Rightarrow> ProjectModifier" where
  "load_modifier key m_data = \<lparr>
     file_hash = dict_get (md_file_hash m_data) key,
     last_filename = dict_get (md_last_filename m_data) [],
     pm_total_validations = dict_get (md_total_validations m_data) 0,
     pm_total_rejections = dict_get (md_total_rejections m_data) 0,
     avg_validated_idle = dict_get (md_avg_validated_idle m_data) 300,
     session_count = dict_get (md_session_count m_data) 0,
     total_work_time = dict_get (md_total_work_time m_data) 0 \<rparr>"

definition from_dict :: "CognitiveProfile \<Rightarrow> profile_data \<Rightarrow> CognitiveProfile" where
  "from_dict p data =
     (if data = empty_data then p
      else
        (let p1 = (case pd_buckets data of
                     None \<Rightarrow> p
                   | Some items \<Rightarrow>
                       p\<lparr>buckets :=
                           foldl (\<lambda>bs (key, b_data).
                                    if key \<in> fst ` set bs
                                    then dict_update key (load_bucket b_data) bs
                                    else bs)
                             (buckets p) items\<rparr>);
             p2 = p1\<lparr>total_validations := dict_get (pd_total_validations data) 0,
                      total_rejections := dict_get (pd_total_rejections data) 0,
                      longest_validated_streak := dict_get (pd_longest_validated_streak data) 0,
                      user_bias := dict_get (pd_user_bias data) 0,
                      implicit_trust_enabled := dict_get (pd_implicit_trust_enabled data) False\<rparr>
         in (case pd_project_modifiers data of
               None \<Rightarrow> p2
             | Some items \<Rightarrow>
                 p2\<lparr>project_modifiers :=
                      foldl (\<lambda>pms (key, m_data). dict_set key (load_modifier key m_data) pms)
                        (project_modifiers p2) items\<rparr>)))"

subsection \<open>Well-formed profiles\<close>

text \<open>
  The bucket invariant of the data model: in every bucket both counts are non-negative
  and the validated count does not exceed the total.
\<close>

definition bucket_ok :: "IdleBucket \<Rightarrow> bool" where
  "bucket_ok b \<longleftrightarrow> 0 \<le> validated_count b \<and> validated_count b \<le> total_count b"

definition buckets_ok :: "(string \<times> IdleBucket) list \<Rightarrow> bool" where
  "buckets_ok bs \<longleftrightarrow> list_all (\<lambda>(k, b). bucket_ok b) bs"

text \<open>
  The shape \<open>__init__\<close> gives the table and no method changes: one entry per range of
  \<open>BUCKET_RANGES\<close>, in that order, under the key of the range.
\<close>

definition bucket_keys_ok :: "(string \<times> IdleBucket) list \<Rightarrow> bool" where
  "bucket_keys_ok bs \<longleftrightarrow>
     map fst bs = map (\<lambda>(lo, hi). range_key lo hi) BUCKET_RANGES"

text \<open>
  What a stored entry must satisfy for the loaded bucket to satisfy the invariant, with
  the defaults of \<open>from_dict\<close> for missing fields.
\<close>

definition bucket_data_ok :: "bucket_data \<Rightarrow> bool" where
  "bucket_data_ok d \<longleftrightarrow>
     0 \<le> dict_get (bd_validated d) 0 \<and> dict_get (bd_validated d) 0 \<le> dict_get (bd_total d) 0"

text \<open>No project counts \<open>- 1\<close> validations, so the running mean never divides by zero.\<close>

definition projects_ok :: "(string \<times> ProjectModifier) list \<Rightarrow> bool" where
  "projects_ok pms \<longleftrightarrow> list_all (\<lambda>(k, m). 0 \<le> pm_total_validations m) pms"



text \<open>Stored bucket data with a validated count and no total, as a partial file may hold.\<close>

definition partial_data :: profile_data where
  "partial_data = empty_data\<lparr>pd_buckets :=
     Some [(''0-180'', \<lparr> bd_min = None, bd_max = None, bd_total = None,
                          bd_validated = Some 1 \<rparr>)]\<rparr>"


section \<open>Properties of the timer state machine\<close>

lemma timer_inv_init: "timer_inv init_timer"
  by (simp add: timer_inv_def init_timer_def)

lemma timer_inv_on_activity_detected: "timer_inv m \<Longrightarrow> timer_inv (on_activity_detected m)"
  by (auto simp: timer_inv_def on_activity_detected_def emit_def set_state_def Let_def
      split: TimerState.splits option.splits prod.splits)

lemma timer_inv_undo: "timer_inv m \<Longrightarrow> timer_inv (snd (undo_last_auto_decision m))"
  by (auto simp: timer_inv_def undo_last_auto_decision_def emit_def Let_def
      split: option.splits prod.splits)

lemma timer_inv_step: "timer_inv m \<Longrightarrow> timer_inv (step m ev)"
proof (cases ev)
  case ActivityDetected
  assume "timer_inv m"
  then show ?thesis using ActivityDetected by (simp add: timer_inv_on_activity_detected)
next
  case UndoLastAutoDecision
  assume "timer_inv m"
  then show ?thesis using UndoLastAutoDecision by (simp add: timer_inv_undo)
qed (auto simp: timer_inv_def emit_def set_state_def start_def stop_def reset_def
      on_activity_stopped_def on_cognitive_response_def on_tick_def on_buffer_expired_def
      set_total_seconds_def set_t_limit_minutes_def set_cognitive_decision_callback_def Let_def
      split: option.splits prod.splits)

lemma timer_inv_run: "timer_inv m \<Longrightarrow> timer_inv (run m evs)"
  unfolding run_def
  by (induction evs arbitrary: m) (simp_all add: timer_inv_step)

lemma on_tick_paused_fields:
  assumes "state m = PAUSED"
  shows "state (on_tick m) = PAUSED"
    and "total_seconds (on_tick m) = total_seconds m"
    and "t_limit_minutes (on_tick m) = t_limit_minutes m"
    and "signals (on_tick m) = signals m"
    and "last_auto_decision (on_tick m) = last_auto_decision m"
    and "idle_seconds (on_tick m) =
          (if idle_seconds m + 1 > t_limit_minutes m * 60 then 0 else idle_seconds m + 1)"
  using assms by (simp_all add: on_tick_def Let_def)

lemma paused_ticks_count:
  assumes "state m = PAUSED" and "idle_seconds m = 0"
  shows "int n \<le> t_limit_minutes m * 60 \<Longrightarrow>
         state ((on_tick ^^ n) m) = PAUSED \<and>
         t_limit_minutes ((on_tick ^^ n) m) = t_limit_minutes m \<and>
         total_seconds ((on_tick ^^ n) m) = total_seconds m \<and>
         idle_seconds ((on_tick ^^ n) m) = int n"
proof (induction n)
  case 0
  then show ?case using assms by simp
next
  case (Suc n)
  then have ih: "state ((on_tick ^^ n) m) = PAUSED"
      "t_limit_minutes ((on_tick ^^ n) m) = t_limit_minutes m"
      "total_seconds ((on_tick ^^ n) m) = total_seconds m"
      "idle_seconds ((on_tick ^^ n) m) = int n"
    by simp_all
  from Suc.prems show ?case
    by (simp add: on_tick_paused_fields [OF ih(1)] ih)
qed

text \<open>
  C3. A tick in the PAUSED state adds one to the idle counter and, when the counter then
  exceeds \<open>t_limit_minutes * 60\<close>, sets it back to 0; the state stays PAUSED, the total is
  not touched, nothing is emitted and the undo slot is left alone. With a limit of 20
  minutes, 1200 ticks after the counter started at 0 it reads 1200, and the tick that
  takes it to 1201 leaves it at 0, still PAUSED.
\<close>

theorem paused_tick_silent_discard:
  assumes "state m = PAUSED"
  shows "state (on_tick m) = PAUSED \<and>
         total_seconds (on_tick m) = total_seconds m \<and>
         signals (on_tick m) = signals m \<and>
         last_auto_decision (on_tick m) = last_auto_decision m \<and>
         idle_seconds (on_tick m) =
           (if idle_seconds m + 1 > t_limit_minutes m * 60 then 0 else idle_seconds m + 1) \<and>
         (t_limit_minutes m = 20 \<and> idle_seconds m = 0 \<longrightarrow>
            idle_seconds ((on_tick ^^ 1200) m) = 1200 \<and>
            idle_seconds ((on_tick ^^ 1201) m) = 0 \<and>
            state ((on_tick ^^ 1201) m) = PAUSED \<and>
            total_seconds ((on_tick ^^ 1201) m) = total_seconds m)"
proof -
  have trace: "idle_seconds ((on_tick ^^ 1200) m) = 1200 \<and>
            idle_seconds ((on_tick ^^ 1201) m) = 0 \<and>
            state ((on_tick ^^ 1201) m) = PAUSED \<and>
            total_seconds ((on_tick ^^ 1201) m) = total_seconds m"
    if t: "t_limit_minutes m = 20" and i: "idle_seconds m = 0"
  proof -
    have le: "int 1200 \<le> t_limit_minutes m * 60" using t by simp
    note c = paused_ticks_count [OF assms i le]
    have s: "(on_tick ^^ 1201) m = on_tick ((on_tick ^^ 1200) m)"
    proof -
      have "(1201::nat) = Suc 1200" by simp
      then show ?thesis by (metis funpow.simps(2) o_apply)
    qed
    have p: "state ((on_tick ^^ 1200) m) = PAUSED" using c by simp
    show ?thesis
      using c t by (simp add: s on_tick_paused_fields [OF p])
  qed
  show ?thesis
    using trace by (simp add: on_tick_paused_fields [OF assms])
qed

theorem paused_tick_silent_discard_witness:
  "state (init_timer\<lparr>state := PAUSED, idle_seconds := 1200\<rparr>) = PAUSED \<and>
   state (on_tick (init_timer\<lparr>state := PAUSED, idle_seconds := 1200\<rparr>)) = PAUSED \<and>
   idle_seconds (on_tick (init_timer\<lparr>state := PAUSED, idle_seconds := 1200\<rparr>)) = 0 \<and>
   total_seconds (on_tick (init_timer\<lparr>state := PAUSED, idle_seconds := 1200\<rparr>)) = 0"
  using paused_tick_silent_discard [of "init_timer\<lparr>state := PAUSED, idle_seconds := 1200\<rparr>"]
  by (simp add: init_timer_def)

text \<open>
  C7. When activity resumes in the PAUSED state within the limit and no decision
  callback is set, the manager goes to COGNITIVE\_CHECK and emits the state change and
  one \<open>cognitive_check_needed\<close> request carrying the idle seconds, the neutral
  confidence 0.5 and no decision. The total, the idle counter and the undo slot are
  unchanged: nothing is accepted or discarded automatically.
\<close>

theorem no_callback_asks_user:
  assumes "state m = PAUSED"
    and "idle_seconds m \<le> t_limit_minutes m * 60"
    and "cognitive_decision_callback m = None"
  shows "state (on_activity_detected m) = COGNITIVE_CHECK \<and>
         signals (on_activity_detected m) =
           signals m @ [state_changed COGNITIVE_CHECK,
                        cognitive_check_needed (idle_seconds m) (1 / 2) None] \<and>
         total_seconds (on_activity_detected m) = total_seconds m \<and>
         idle_seconds (on_activity_detected m) = idle_seconds m \<and>
         last_auto_decision (on_activity_detected m) = last_auto_decision m"
  using assms by (simp add: on_activity_detected_def set_state_def emit_def Let_def)

theorem no_callback_asks_user_witness:
  "state (run init_timer [ActivityDetected, Tick, ActivityStopped, BufferExpired, Tick, Tick])
     = PAUSED \<and>
   idle_seconds (run init_timer [ActivityDetected, Tick, ActivityStopped, BufferExpired, Tick, Tick])
     \<le> t_limit_minutes
          (run init_timer [ActivityDetected, Tick, ActivityStopped, BufferExpired, Tick, Tick]) * 60 \<and>
   cognitive_decision_callback
     (run init_timer [ActivityDetected, Tick, ActivityStopped, BufferExpired, Tick, Tick]) = None \<and>
   state (on_activity_detected
     (run init_timer [ActivityDetected, Tick, ActivityStopped, BufferExpired, Tick, Tick]))
     = COGNITIVE_CHECK \<and>
   total_seconds (on_activity_detected
     (run init_timer [ActivityDetected, Tick, ActivityStopped, BufferExpired, Tick, Tick])) = 1"
  using no_callback_asks_user
    [of "run init_timer [ActivityDetected, Tick, ActivityStopped, BufferExpired, Tick, Tick]"]
  by (simp add: run_def init_timer_def on_activity_detected_def on_activity_stopped_def
      on_buffer_expired_def on_tick_def set_state_def emit_def Let_def)


text \<open>
  C10. The total is never negative. Started from the initial manager, every sequence of
  operations (method calls and timer expiries) leaves \<open>total_seconds\<close> at 0 or more;
  each single operation preserves the invariant that the total, the idle counter and
  the seconds held in the undo slot are non-negative. In particular a tick never lowers
  the total, the undo of an accepted decision subtracts with a floor at 0,
  \<open>set_total_seconds\<close> floors its argument at 0, and \<open>reset\<close> sets the total to 0.
\<close>

theorem total_seconds_never_negative:
  "0 \<le> total_seconds (run init_timer evs) \<and>
   (timer_inv m \<longrightarrow> timer_inv (step m ev) \<and> 0 \<le> total_seconds (step m ev)) \<and>
   total_seconds m \<le> total_seconds (on_tick m) \<and>
   (last_auto_decision m = Some (True, secs, c) \<longrightarrow>
      total_seconds (snd (undo_last_auto_decision m)) = max 0 (total_seconds m - secs)) \<and>
   total_seconds (set_total_seconds n m) = max 0 n \<and>
   total_seconds (reset m) = 0"
proof -
  have a: "0 \<le> total_seconds (run init_timer evs)"
    using timer_inv_run [OF timer_inv_init, of evs] by (simp add: timer_inv_def)
  have b: "timer_inv m \<longrightarrow> timer_inv (step m ev) \<and> 0 \<le> total_seconds (step m ev)"
    using timer_inv_step [of m ev] by (simp add: timer_inv_def)
  have c: "total_seconds m \<le> total_seconds (on_tick m)"
    by (simp add: on_tick_def emit_def Let_def)
  have d: "last_auto_decision m = Some (True, secs, c) \<longrightarrow>
      total_seconds (snd (undo_last_auto_decision m)) = max 0 (total_seconds m - secs)"
    by (simp add: undo_last_auto_decision_def emit_def Let_def)
  have e: "total_seconds (set_total_seconds n m) = max 0 n"
    by (simp add: set_total_seconds_def emit_def Let_def)
  have f: "total_seconds (reset m) = 0"
    by (simp add: reset_def emit_def)
  from a b c d e f show ?thesis by blast
qed

theorem total_seconds_never_negative_witness:
  "timer_inv (init_timer\<lparr>total_seconds := 5, last_auto_decision := Some (True, 9, 9 / 10)\<rparr>) \<and>
   timer_inv (step (init_timer\<lparr>total_seconds := 5, last_auto_decision := Some (True, 9, 9 / 10)\<rparr>)
                UndoLastAutoDecision) \<and>
   total_seconds (step (init_timer\<lparr>total_seconds := 5, last_auto_decision := Some (True, 9, 9 / 10)\<rparr>)
                UndoLastAutoDecision) = 0 \<and>
   0 \<le> total_seconds (run init_timer [ActivityDetected, Tick, SetTotalSeconds (- 4), Tick])"
  using total_seconds_never_negative
    [of "[ActivityDetected, Tick, SetTotalSeconds (- 4), Tick]"
        "init_timer\<lparr>total_seconds := 5, last_auto_decision := Some (True, 9, 9 / 10)\<rparr>"
        UndoLastAutoDecision 9 "9 / 10" 0]
  by (simp add: timer_inv_def init_timer_def)

lemma auto_decision_fields:
  assumes "state m = PAUSED"
    and "idle_seconds m \<le> t_limit_minutes m * 60"
    and "cognitive_decision_callback m = Some cb"
    and "cb (idle_seconds m) = (c, d)"
    and "d \<noteq> ASK_USER"
  shows "last_auto_decision (on_activity_detected m) = Some (d = AUTO_ACCEPT, idle_seconds m, c)"
    and "total_seconds (on_activity_detected m) =
           (if d = AUTO_ACCEPT then total_seconds m + idle_seconds m else total_seconds m)"
    and "state (on_activity_detected m) = RUNNING"
    and "idle_seconds (on_activity_detected m) = 0"
  using assms
  by (cases d; simp add: on_activity_detected_def set_state_def emit_def Let_def)+

lemma undo_fields:
  assumes "last_auto_decision m = Some (acc, secs, c)"
  shows "fst (undo_last_auto_decision m) = Some (acc, secs)"
    and "total_seconds (snd (undo_last_auto_decision m)) =
           (if acc then max 0 (total_seconds m - secs) else total_seconds m + secs)"
    and "last_auto_decision (snd (undo_last_auto_decision m)) = None"
  using assms by (simp_all add: undo_last_auto_decision_def emit_def Let_def)

lemma undo_none:
  "last_auto_decision m = None \<Longrightarrow> undo_last_auto_decision m = (None, m)"
  by (simp add: undo_last_auto_decision_def)

lemma undo_clears: "last_auto_decision (snd (undo_last_auto_decision m)) = None"
  by (simp add: undo_last_auto_decision_def emit_def Let_def split: option.splits prod.splits)

text \<open>
  C2, as amended. When the undo slot holds \<open>(was_accepted, seconds, confidence)\<close>,
  \<open>undo_last_auto_decision\<close> returns \<open>(was_accepted, seconds)\<close>, clears the slot, and
  sets the total to \<open>max 0 (total - seconds)\<close> after an accept and to
  \<open>total + seconds\<close> after a discard. With an empty slot it returns \<open>None\<close> and changes
  nothing, so a second call in a row returns \<open>None\<close> and leaves the total alone. An
  automatic decision taken on resuming from PAUSED stores \<open>(accepted, idle, confidence)\<close>
  in the slot whatever the slot held before, and changes the total by the new decision
  only. After accept-then-undo the total is back at its value before the decision
  (the total being non-negative then); after discard-then-undo the total is its value
  before the decision plus the idle seconds, which the undo counts as work.
\<close>

theorem undo_last_auto_decision_inverse:
  "(last_auto_decision m = Some (acc, secs, c) \<longrightarrow>
      fst (undo_last_auto_decision m) = Some (acc, secs) \<and>
      total_seconds (snd (undo_last_auto_decision m)) =
        (if acc then max 0 (total_seconds m - secs) else total_seconds m + secs) \<and>
      last_auto_decision (snd (undo_last_auto_decision m)) = None) \<and>
   (last_auto_decision m = None \<longrightarrow> undo_last_auto_decision m = (None, m)) \<and>
   undo_last_auto_decision (snd (undo_last_auto_decision m)) =
     (None, snd (undo_last_auto_decision m)) \<and>
   (state m = PAUSED \<and> idle_seconds m \<le> t_limit_minutes m * 60 \<and>
    cognitive_decision_callback m = Some cb \<and> cb (idle_seconds m) = (c', d) \<and> d \<noteq> ASK_USER \<longrightarrow>
      last_auto_decision (on_activity_detected m) = Some (d = AUTO_ACCEPT, idle_seconds m, c') \<and>
      total_seconds (on_activity_detected m) =
        (if d = AUTO_ACCEPT then total_seconds m + idle_seconds m else total_seconds m) \<and>
      fst (undo_last_auto_decision (on_activity_detected m)) =
        Some (d = AUTO_ACCEPT, idle_seconds m) \<and>
      (d = AUTO_ACCEPT \<and> 0 \<le> total_seconds m \<longrightarrow>
         total_seconds (snd (undo_last_auto_decision (on_activity_detected m))) =
           total_seconds m) \<and>
      (d = AUTO_DISCARD \<longrightarrow>
         total_seconds (snd (undo_last_auto_decision (on_activity_detected m))) =
           total_seconds m + idle_seconds m))"
proof -
  have p1: "last_auto_decision m = Some (acc, secs, c) \<longrightarrow>
      fst (undo_last_auto_decision m) = Some (acc, secs) \<and>
      total_seconds (snd (undo_last_auto_decision m)) =
        (if acc then max 0 (total_seconds m - secs) else total_seconds m + secs) \<and>
      last_auto_decision (snd (undo_last_auto_decision m)) = None"
    using undo_fields [of m acc secs c] by blast
  have p2: "last_auto_decision m = None \<longrightarrow> undo_last_auto_decision m = (None, m)"
    by (simp add: undo_none)
  have p3: "undo_last_auto_decision (snd (undo_last_auto_decision m)) =
     (None, snd (undo_last_auto_decision m))"
    by (rule undo_none [OF undo_clears])
  have p4: "last_auto_decision (on_activity_detected m) = Some (d = AUTO_ACCEPT, idle_seconds m, c') \<and>
      total_seconds (on_activity_detected m) =
        (if d = AUTO_ACCEPT then total_seconds m + idle_seconds m else total_seconds m) \<and>
      fst (undo_last_auto_decision (on_activity_detected m)) =
        Some (d = AUTO_ACCEPT, idle_seconds m) \<and>
      (d = AUTO_ACCEPT \<and> 0 \<le> total_seconds m \<longrightarrow>
         total_seconds (snd (undo_last_auto_decision (on_activity_detected m))) =
           total_seconds m) \<and>
      (d = AUTO_DISCARD \<longrightarrow>
         total_seconds (snd (undo_last_auto_decision (on_activity_detected m))) =
           total_seconds m + idle_seconds m)"
    if h: "state m = PAUSED" "idle_seconds m \<le> t_limit_minutes m * 60"
      "cognitive_decision_callback m = Some cb" "cb (idle_seconds m) = (c', d)" "d \<noteq> ASK_USER"
  proof -
    note a = auto_decision_fields [OF h]
    note u = undo_fields [OF a(1)]
    show ?thesis using a(1,2) u(1,2) by simp
  qed
  from p1 p2 p3 p4 show ?thesis by blast
qed

theorem undo_last_auto_decision_inverse_witness:
  "state (run init_timer [ActivityDetected, Tick, Tick, ActivityStopped, Tick, BufferExpired,
        Tick, Tick, SetCallback (Some always_accept)]) = PAUSED \<and>
   total_seconds (run init_timer [ActivityDetected, Tick, Tick, ActivityStopped, Tick, BufferExpired,
        Tick, Tick, SetCallback (Some always_accept)]) = 3 \<and>
   total_seconds (run init_timer [ActivityDetected, Tick, Tick, ActivityStopped, Tick, BufferExpired,
        Tick, Tick, SetCallback (Some always_accept), ActivityDetected]) = 5 \<and>
   total_seconds (snd (undo_last_auto_decision (on_activity_detected
      (run init_timer [ActivityDetected, Tick, Tick, ActivityStopped, Tick, BufferExpired,
        Tick, Tick, SetCallback (Some always_accept)])))) = 3"
  using undo_last_auto_decision_inverse
    [of "run init_timer [ActivityDetected, Tick, Tick, ActivityStopped, Tick, BufferExpired,
        Tick, Tick, SetCallback (Some always_accept)]" True 2 "9 / 10" always_accept "9 / 10" AUTO_ACCEPT]
  by (simp add: run_def init_timer_def on_activity_detected_def on_activity_stopped_def
      on_buffer_expired_def on_tick_def set_state_def emit_def Let_def always_accept_def
      set_cognitive_decision_callback_def)

text \<open>
  The claim as first stated also promised the pre-decision total after discard-then-undo.
  Three seconds of work, three seconds of pause, an automatic discard and its undo: the
  total was 3 before the decision and after the discard, and is 6 after the undo.
\<close>

theorem discard_then_undo_counterexample:
  "state (run init_timer [ActivityDetected, Tick, Tick, ActivityStopped, Tick, BufferExpired,
        Tick, Tick, Tick, SetCallback (Some always_discard)]) = PAUSED \<and>
   total_seconds (run init_timer [ActivityDetected, Tick, Tick, ActivityStopped, Tick,
        BufferExpired, Tick, Tick, Tick, SetCallback (Some always_discard)]) = 3 \<and>
   last_auto_decision (run init_timer [ActivityDetected, Tick, Tick, ActivityStopped, Tick,
        BufferExpired, Tick, Tick, Tick, SetCallback (Some always_discard), ActivityDetected])
     = Some (False, 3, 1 / 10) \<and>
   total_seconds (run init_timer [ActivityDetected, Tick, Tick, ActivityStopped, Tick,
        BufferExpired, Tick, Tick, Tick, SetCallback (Some always_discard), ActivityDetected]) = 3 \<and>
   total_seconds (run init_timer [ActivityDetected, Tick, Tick, ActivityStopped, Tick,
        BufferExpired, Tick, Tick, Tick, SetCallback (Some always_discard), ActivityDetected,
        UndoLastAutoDecision]) = 6 \<and>
   total_seconds (run init_timer [ActivityDetected, Tick, Tick, ActivityStopped, Tick,
        BufferExpired, Tick, Tick, Tick, SetCallback (Some always_discard), ActivityDetected,
        UndoLastAutoDecision])
     \<noteq> total_seconds (run init_timer [ActivityDetected, Tick, Tick, ActivityStopped, Tick,
        BufferExpired, Tick, Tick, Tick, SetCallback (Some always_discard)])"
  by (simp add: run_def init_timer_def on_activity_detected_def on_activity_stopped_def
      on_buffer_expired_def on_tick_def set_state_def emit_def Let_def always_discard_def
      set_cognitive_decision_callback_def undo_last_auto_decision_def)


section \<open>Properties of the bucket table\<close>

lemma range_keys:
  "range_key 0 180 = ''0-180''" "range_key 180 420 = ''180-420''"
  "range_key 420 900 = ''420-900''" "range_key 900 1500 = ''900-1500''"
  "range_key 1500 3600 = ''1500-3600''"
  by (simp_all add: range_key_def str_int_def str_nat.simps)

lemma bucket_key_cases:
  "0 \<le> d \<Longrightarrow> bucket_key d =
     (if d < 180 then ''0-180'' else if d < 420 then ''180-420''
      else if d < 900 then ''420-900'' else if d < 1500 then ''900-1500''
      else ''1500-3600'')"
  by (simp add: bucket_key_def BUCKET_RANGES_def range_keys)

lemma bucket_key_negative: "d < 0 \<Longrightarrow> bucket_key d = ''1500-3600''"
  by (simp add: bucket_key_def BUCKET_RANGES_def range_keys)

lemma bucket_key_mins:
  "bucket_key 0 = ''0-180''" "bucket_key 180 = ''180-420''" "bucket_key 420 = ''420-900''"
  "bucket_key 900 = ''900-1500''" "bucket_key 1500 = ''1500-3600''"
  by (simp_all add: bucket_key_cases)

lemma init_buckets_eq:
  "init_buckets =
     [(''0-180'', \<lparr>min_seconds = 0, max_seconds = 180, total_count = 0, validated_count = 0\<rparr>),
      (''180-420'', \<lparr>min_seconds = 180, max_seconds = 420, total_count = 0, validated_count = 0\<rparr>),
      (''420-900'', \<lparr>min_seconds = 420, max_seconds = 900, total_count = 0, validated_count = 0\<rparr>),
      (''900-1500'', \<lparr>min_seconds = 900, max_seconds = 1500, total_count = 0, validated_count = 0\<rparr>),
      (''1500-3600'', \<lparr>min_seconds = 1500, max_seconds = 3600, total_count = 0, validated_count = 0\<rparr>)]"
  by (simp add: init_buckets_def BUCKET_RANGES_def bucket_key_mins dict_set_def)

lemma bucket_keys_ok_iff:
  "bucket_keys_ok bs \<longleftrightarrow>
     map fst bs = [''0-180'', ''180-420'', ''420-900'', ''900-1500'', ''1500-3600'']"
  by (simp add: bucket_keys_ok_def BUCKET_RANGES_def range_keys)

lemma bucket_keys_ok_init: "bucket_keys_ok init_buckets"
  by (simp add: bucket_keys_ok_iff init_buckets_eq)

lemma bucket_keys_ok_shape:
  assumes "bucket_keys_ok bs"
  obtains b0 b1 b2 b3 b4 where
    "bs = [(''0-180'', b0), (''180-420'', b1), (''420-900'', b2), (''900-1500'', b3),
           (''1500-3600'', b4)]"
proof -
  from assms have m: "map fst bs = [''0-180'', ''180-420'', ''420-900'', ''900-1500'', ''1500-3600'']"
    by (simp add: bucket_keys_ok_iff)
  then obtain e0 e1 e2 e3 e4 where bs: "bs = [e0, e1, e2, e3, e4]"
    by (auto simp: map_eq_Cons_conv)
  with m have "e0 = (''0-180'', snd e0)" "e1 = (''180-420'', snd e1)" "e2 = (''420-900'', snd e2)"
    "e3 = (''900-1500'', snd e3)" "e4 = (''1500-3600'', snd e4)"
    by (auto simp: prod_eq_iff)
  with bs have "bs = [(''0-180'', snd e0), (''180-420'', snd e1), (''420-900'', snd e2),
      (''900-1500'', snd e3), (''1500-3600'', snd e4)]" by simp
  then show thesis by (rule that)
qed

lemma bucket_key_in_keys:
  "bucket_key d \<in> {''0-180'', ''180-420'', ''420-900'', ''900-1500'', ''1500-3600''}"
  by (cases "0 \<le> d") (simp_all add: bucket_key_cases bucket_key_negative)

lemma get_bucket_ok:
  assumes "bucket_keys_ok bs"
  shows "\<exists>b. get_bucket bs d = Inr (bucket_key d, b) \<and> map_of bs (bucket_key d) = Some b
             \<and> (bucket_key d, b) \<in> set bs"
proof -
  from assms obtain b0 b1 b2 b3 b4 where
    bs: "bs = [(''0-180'', b0), (''180-420'', b1), (''420-900'', b2), (''900-1500'', b3),
           (''1500-3600'', b4)]" by (rule bucket_keys_ok_shape)
  from bucket_key_in_keys [of d] show ?thesis
    by (auto simp: bs get_bucket_def Let_def)
qed


lemma range_key_inj:
  assumes "r \<in> set BUCKET_RANGES" and "r' \<in> set BUCKET_RANGES"
  shows "range_key (fst r) (snd r) = range_key (fst r') (snd r') \<longleftrightarrow> r = r'"
proof -
  have r: "r = (0, 180) \<or> r = (180, 420) \<or> r = (420, 900) \<or> r = (900, 1500) \<or> r = (1500, 3600)"
    using assms(1) by (auto simp: BUCKET_RANGES_def)
  have r': "r' = (0, 180) \<or> r' = (180, 420) \<or> r' = (420, 900) \<or> r' = (900, 1500) \<or> r' = (1500, 3600)"
    using assms(2) by (auto simp: BUCKET_RANGES_def)
  from r r' show ?thesis
    by (elim disjE; simp add: range_keys)
qed

lemma bucket_key_range:
  assumes "0 \<le> d"
  shows "\<exists>r \<in> set BUCKET_RANGES. bucket_key d = range_key (fst r) (snd r) \<and>
           ((fst r \<le> d \<and> d < snd r) \<or> (3600 \<le> d \<and> r = (1500, 3600)))"
proof -
  consider "d < 180" | "180 \<le> d" "d < 420" | "420 \<le> d" "d < 900"
    | "900 \<le> d" "d < 1500" | "1500 \<le> d" "d < 3600" | "3600 \<le> d"
    by linarith
  then show ?thesis
  proof cases
    case 1
    then have "bucket_key d = range_key (fst (0, 180)) (snd (0, 180))"
      using assms by (simp add: bucket_key_cases range_keys)
    with 1 assms show ?thesis unfolding BUCKET_RANGES_def by (intro bexI [of _ "(0, 180)"]) simp_all
  next
    case 2
    then have "bucket_key d = range_key (fst (180, 420)) (snd (180, 420))"
      using assms by (simp add: bucket_key_cases range_keys)
    with 2 assms show ?thesis unfolding BUCKET_RANGES_def by (intro bexI [of _ "(180, 420)"]) simp_all
  next
    case 3
    then have "bucket_key d = range_key (fst (420, 900)) (snd (420, 900))"
      using assms by (simp add: bucket_key_cases range_keys)
    with 3 assms show ?thesis unfolding BUCKET_RANGES_def by (intro bexI [of _ "(420, 900)"]) simp_all
  next
    case 4
    then have "bucket_key d = range_key (fst (900, 1500)) (snd (900, 1500))"
      using assms by (simp add: bucket_key_cases range_keys)
    with 4 assms show ?thesis unfolding BUCKET_RANGES_def by (intro bexI [of _ "(900, 1500)"]) simp_all
  next
    case 5
    then have "bucket_key d = range_key (fst (1500, 3600)) (snd (1500, 3600))"
      using assms by (simp add: bucket_key_cases range_keys)
    with 5 assms show ?thesis unfolding BUCKET_RANGES_def by (intro bexI [of _ "(1500, 3600)"]) simp_all
  next
    case 6
    then have "bucket_key d = range_key (fst (1500, 3600)) (snd (1500, 3600))"
      using assms by (simp add: bucket_key_cases range_keys)
    with 6 assms show ?thesis unfolding BUCKET_RANGES_def by (intro bexI [of _ "(1500, 3600)"]) simp_all
  qed
qed

lemma ranges_disjoint:
  assumes "r1 \<in> set BUCKET_RANGES" and "r2 \<in> set BUCKET_RANGES"
    and "fst r1 \<le> d" "d < snd r1" "fst r2 \<le> d" "d < snd r2"
  shows "r1 = r2"
proof -
  have r: "r1 = (0, 180) \<or> r1 = (180, 420) \<or> r1 = (420, 900) \<or> r1 = (900, 1500) \<or> r1 = (1500, 3600)"
    using assms(1) by (auto simp: BUCKET_RANGES_def)
  have r': "r2 = (0, 180) \<or> r2 = (180, 420) \<or> r2 = (420, 900) \<or> r2 = (900, 1500) \<or> r2 = (1500, 3600)"
    using assms(2) by (auto simp: BUCKET_RANGES_def)
  from r r' assms(3-6) show ?thesis
    by (elim disjE; simp)
qed

lemma ranges_below_3600:
  assumes "r \<in> set BUCKET_RANGES" shows "0 \<le> fst r \<and> fst r < snd r \<and> snd r \<le> 3600"
  using assms by (auto simp: BUCKET_RANGES_def)

lemma get_bucket_init:
  assumes "r \<in> set BUCKET_RANGES" and "bucket_key d = range_key (fst r) (snd r)"
  shows "get_bucket init_buckets d =
           Inr (range_key (fst r) (snd r), \<lparr>min_seconds = fst r, max_seconds = snd r,
                                             total_count = 0, validated_count = 0\<rparr>)"
proof -
  have r: "r = (0, 180) \<or> r = (180, 420) \<or> r = (420, 900) \<or> r = (900, 1500) \<or> r = (1500, 3600)"
    using assms(1) by (auto simp: BUCKET_RANGES_def)
  then show ?thesis using assms(2)
    by (elim disjE; simp add: get_bucket_def init_buckets_eq range_keys)
qed


lemma bucket_key_iff:
  assumes "0 \<le> d" and "r \<in> set BUCKET_RANGES"
  shows "bucket_key d = range_key (fst r) (snd r) \<longleftrightarrow>
           (fst r \<le> d \<and> d < snd r) \<or> (3600 \<le> d \<and> r = (1500, 3600))"
proof -
  from bucket_key_range [OF assms(1)] obtain r0 where
    r0: "r0 \<in> set BUCKET_RANGES" "bucket_key d = range_key (fst r0) (snd r0)"
      "(fst r0 \<le> d \<and> d < snd r0) \<or> (3600 \<le> d \<and> r0 = (1500, 3600))"
    by blast
  have key: "bucket_key d = range_key (fst r) (snd r) \<longleftrightarrow> r = r0"
    using range_key_inj [OF r0(1) assms(2)] r0(2) by auto
  have "r = r0" if h: "(fst r \<le> d \<and> d < snd r) \<or> (3600 \<le> d \<and> r = (1500, 3600))"
  proof (cases "d < 3600")
    case True
    with h r0(3) have "fst r \<le> d" "d < snd r" "fst r0 \<le> d" "d < snd r0" by auto
    then show ?thesis by (rule ranges_disjoint [OF assms(2) r0(1)])
  next
    case False
    moreover have "snd r \<le> 3600" "snd r0 \<le> 3600"
      using ranges_below_3600 [OF assms(2)] ranges_below_3600 [OF r0(1)] by simp_all
    ultimately show ?thesis using h r0(3) by auto
  qed
  with key r0(3) show ?thesis by auto
qed

text \<open>
  C4. For every idle duration \<open>d \<ge> 0\<close> the lookup returns the key of exactly one of the
  five ranges [0,180), [180,420), [420,900), [900,1500), [1500,3600): the range that
  contains \<open>d\<close>, or the last range when \<open>d \<ge> 3600\<close>. No two ranges contain the same
  \<open>d\<close>, and every \<open>d\<close> below 3600 lies in one. \<open>_get_bucket\<close> returns the bucket stored
  under that key, in the initial table the bucket of that range, and in any table that
  has the five keys an entry of the table.
\<close>

theorem bucket_lookup_exactly_one:
  assumes "0 \<le> d"
  shows "BUCKET_RANGES = [(0, 180), (180, 420), (420, 900), (900, 1500), (1500, 3600)] \<and>
         (\<exists>!r. r \<in> set BUCKET_RANGES \<and> bucket_key d = range_key (fst r) (snd r)) \<and>
         (\<forall>r \<in> set BUCKET_RANGES.
            bucket_key d = range_key (fst r) (snd r) \<longleftrightarrow>
              (fst r \<le> d \<and> d < snd r) \<or> (3600 \<le> d \<and> r = (1500, 3600))) \<and>
         (\<forall>r1 \<in> set BUCKET_RANGES. \<forall>r2 \<in> set BUCKET_RANGES.
            fst r1 \<le> d \<and> d < snd r1 \<and> fst r2 \<le> d \<and> d < snd r2 \<longrightarrow> r1 = r2) \<and>
         (d < 3600 \<longrightarrow> (\<exists>r \<in> set BUCKET_RANGES. fst r \<le> d \<and> d < snd r)) \<and>
         (\<forall>r \<in> set BUCKET_RANGES.
            bucket_key d = range_key (fst r) (snd r) \<longrightarrow>
            get_bucket init_buckets d =
              Inr (range_key (fst r) (snd r), \<lparr>min_seconds = fst r, max_seconds = snd r,
                                               total_count = 0, validated_count = 0\<rparr>)) \<and>
         (bucket_keys_ok bs \<longrightarrow>
            (\<exists>b. get_bucket bs d = Inr (bucket_key d, b) \<and> (bucket_key d, b) \<in> set bs))"
proof -
  from bucket_key_range [OF assms] obtain r0 where
    r0: "r0 \<in> set BUCKET_RANGES" "bucket_key d = range_key (fst r0) (snd r0)"
      "(fst r0 \<le> d \<and> d < snd r0) \<or> (3600 \<le> d \<and> r0 = (1500, 3600))"
    by blast
  have one: "\<exists>!r. r \<in> set BUCKET_RANGES \<and> bucket_key d = range_key (fst r) (snd r)"
  proof (rule ex1I [of _ r0])
    show "r0 \<in> set BUCKET_RANGES \<and> bucket_key d = range_key (fst r0) (snd r0)"
      using r0 by simp
  next
    fix r assume h: "r \<in> set BUCKET_RANGES \<and> bucket_key d = range_key (fst r) (snd r)"
    then have m: "r \<in> set BUCKET_RANGES" by (rule conjunct1)
    from h r0(2) have "range_key (fst r) (snd r) = range_key (fst r0) (snd r0)"
      by (elim conjE) (rule trans [OF sym])
    then show "r = r0" by (simp only: range_key_inj [OF m r0(1)])
  qed
  have iff: "\<forall>r \<in> set BUCKET_RANGES.
            bucket_key d = range_key (fst r) (snd r) \<longleftrightarrow>
              (fst r \<le> d \<and> d < snd r) \<or> (3600 \<le> d \<and> r = (1500, 3600))"
    using bucket_key_iff [OF assms] by blast
  have disj: "\<forall>r1 \<in> set BUCKET_RANGES. \<forall>r2 \<in> set BUCKET_RANGES.
            fst r1 \<le> d \<and> d < snd r1 \<and> fst r2 \<le> d \<and> d < snd r2 \<longrightarrow> r1 = r2"
    using ranges_disjoint by blast
  have cover: "d < 3600 \<longrightarrow> (\<exists>r \<in> set BUCKET_RANGES. fst r \<le> d \<and> d < snd r)"
    using r0 by auto
  have init: "\<forall>r \<in> set BUCKET_RANGES.
            bucket_key d = range_key (fst r) (snd r) \<longrightarrow>
            get_bucket init_buckets d =
              Inr (range_key (fst r) (snd r), \<lparr>min_seconds = fst r, max_seconds = snd r,
                                               total_count = 0, validated_count = 0\<rparr>)"
    using get_bucket_init by blast
  have any: "bucket_keys_ok bs \<longrightarrow>
            (\<exists>b. get_bucket bs d = Inr (bucket_key d, b) \<and> (bucket_key d, b) \<in> set bs)"
    using get_bucket_ok [of bs d] by blast
  have ranges: "BUCKET_RANGES = [(0, 180), (180, 420), (420, 900), (900, 1500), (1500, 3600)]"
    by (simp add: BUCKET_RANGES_def)
  show ?thesis
    by (intro conjI) (fact ranges, fact one, fact iff, fact disj, fact cover, fact init, fact any)
qed

theorem bucket_lookup_exactly_one_witness:
  "(0::int) \<le> 5000 \<and> bucket_key 5000 = ''1500-3600'' \<and>
   (\<exists>!r. r \<in> set BUCKET_RANGES \<and> bucket_key 5000 = range_key (fst r) (snd r)) \<and>
   (0::int) \<le> 200 \<and> bucket_key 200 = ''180-420'' \<and>
   (\<exists>!r. r \<in> set BUCKET_RANGES \<and> bucket_key 200 = range_key (fst r) (snd r))"
proof -
  have a: "(0::int) \<le> 5000" and b: "(0::int) \<le> 200" by simp_all
  have k: "bucket_key 5000 = ''1500-3600''" "bucket_key 200 = ''180-420''"
    by (simp_all add: bucket_key_cases)
  note ua = bucket_lookup_exactly_one [OF a, THEN conjunct2, THEN conjunct1]
  note ub = bucket_lookup_exactly_one [OF b, THEN conjunct2, THEN conjunct1]
  show ?thesis
    by (intro conjI) (fact a, fact k(1), fact ua, fact b, fact k(2), fact ub)
qed


section \<open>Double-precision rounding\<close>

lemma pow2_powr: "pow2 k = 2 powr (of_int k)"
  by (simp add: pow2_def powr_int)

lemma pow2_pos: "0 < pow2 k"
  by (simp add: pow2_powr)

lemma pow2_add: "pow2 (a + b) = pow2 a * pow2 b"
  by (simp add: pow2_powr powr_add)

lemma pow2_mono: "a \<le> b \<Longrightarrow> pow2 a \<le> pow2 b"
  by (simp add: pow2_powr)

lemma binade_bounds:
  assumes "x \<noteq> 0"
  shows "pow2 (binade x) \<le> \<bar>x\<bar>" and "\<bar>x\<bar> < pow2 (binade x + 1)"
proof -
  have p: "0 < \<bar>x\<bar>" using assms by simp
  have "of_int (binade x) \<le> log 2 \<bar>x\<bar>" by (simp add: binade_def)
  then show "pow2 (binade x) \<le> \<bar>x\<bar>"
    using p by (simp add: pow2_powr le_log_iff)
  have "log 2 \<bar>x\<bar> < of_int (binade x + 1)" by (simp add: binade_def)
  then show "\<bar>x\<bar> < pow2 (binade x + 1)"
    using p by (simp add: pow2_powr log_less_iff del: of_int_add)
qed

lemma binade_unique:
  assumes "pow2 e \<le> \<bar>x\<bar>" and "\<bar>x\<bar> < pow2 (e + 1)"
  shows "binade x = e"
proof -
  have p: "0 < \<bar>x\<bar>" using assms(1) pow2_pos [of e] by linarith
  have "of_int e \<le> log 2 \<bar>x\<bar>"
    using assms(1) p by (simp add: pow2_powr le_log_iff)
  moreover have "log 2 \<bar>x\<bar> < of_int e + 1"
    using assms(2) p by (simp add: pow2_powr log_less_iff)
  ultimately show ?thesis unfolding binade_def by (simp add: floor_unique)
qed

lemma binade_mono:
  assumes "0 < x" and "x \<le> y"
  shows "binade x \<le> binade y"
  unfolding binade_def using assms by (intro floor_mono) simp

lemma round_double_eval:
  assumes "pow2 e \<le> \<bar>x\<bar>" and "\<bar>x\<bar> < pow2 (e + 1)"
  shows "round_double x =
           sgn x * of_int (round_half_even (\<bar>x\<bar> / pow2 (e - 52))) * pow2 (e - 52)"
proof -
  have "x \<noteq> 0" using assms(1) pow2_pos [of e] by auto
  then show ?thesis
    by (simp add: round_double_def Let_def binade_unique [OF assms])
qed

lemma round_half_even_of_int: "round_half_even (of_int k) = k"
  by (simp add: round_half_even_def)

lemma round_half_even_cases:
  "round_half_even x = \<lfloor>x\<rfloor> \<or> round_half_even x = \<lfloor>x\<rfloor> + 1"
  by (simp add: round_half_even_def Let_def)

lemma round_half_even_mono:
  assumes "x \<le> y"
  shows "round_half_even x \<le> round_half_even y"
proof (cases "\<lfloor>x\<rfloor> = \<lfloor>y\<rfloor>")
  case True
  with assms have "x - of_int \<lfloor>x\<rfloor> \<le> y - of_int \<lfloor>y\<rfloor>" by simp
  with True show ?thesis
    by (auto simp: round_half_even_def Let_def)
next
  case False
  with assms have "\<lfloor>x\<rfloor> < \<lfloor>y\<rfloor>" using floor_mono [OF assms] by linarith
  moreover have "round_half_even x \<le> \<lfloor>x\<rfloor> + 1"
    using round_half_even_cases [of x] by auto
  moreover have "\<lfloor>y\<rfloor> \<le> round_half_even y"
    using round_half_even_cases [of y] by auto
  ultimately show ?thesis by linarith
qed

lemma round_half_even_nonneg: "0 \<le> x \<Longrightarrow> 0 \<le> round_half_even x"
  using round_half_even_mono [of 0 x] round_half_even_of_int [of 0] by simp

lemma round_double_zero: "round_double 0 = 0"
  by (simp add: round_double_def)

lemma round_double_minus: "round_double (- x) = - round_double x"
  by (simp add: round_double_def binade_def Let_def sgn_minus)

lemma round_double_pos_range:
  assumes "0 < x"
  shows "pow2 (binade x) \<le> round_double x" and "round_double x \<le> pow2 (binade x + 1)"
proof -
  define e where "e = binade x"
  define u where "u = pow2 (e - 52)"
  have u: "0 < u" by (simp add: u_def pow2_pos)
  have x0: "x \<noteq> 0" using assms by simp
  have ax: "\<bar>x\<bar> = x" using assms by simp
  have lo: "pow2 e \<le> x" and hi: "x < pow2 (e + 1)"
    using binade_bounds [OF x0] by (simp_all add: e_def ax)
  have c52: "pow2 52 = of_int (2 ^ 52)" and c53: "pow2 53 = of_int (2 ^ 53)"
    by (simp_all add: pow2_def)
  have "pow2 (52 + (e - 52)) = pow2 52 * pow2 (e - 52)" by (rule pow2_add)
  then have pe: "pow2 e = of_int (2 ^ 52) * u"
    by (simp only: c52 u_def) simp
  have "pow2 (53 + (e - 52)) = pow2 53 * pow2 (e - 52)" by (rule pow2_add)
  moreover have "53 + (e - 52) = e + 1" by simp
  ultimately have pe1: "pow2 (e + 1) = of_int (2 ^ 53) * u"
    by (simp only: c53 u_def)
  have r: "round_double x = of_int (round_half_even (x / u)) * u"
    using assms by (simp add: round_double_def Let_def e_def u_def)
  have "of_int (2 ^ 52) \<le> x / u" using lo u by (simp add: pe pos_le_divide_eq)
  from round_half_even_mono [OF this]
  have a: "2 ^ 52 \<le> round_half_even (x / u)" by (simp only: round_half_even_of_int)
  have "x / u \<le> of_int (2 ^ 53)" using hi u by (simp add: pe1 pos_divide_le_eq)
  from round_half_even_mono [OF this]
  have b: "round_half_even (x / u) \<le> 2 ^ 53" by (simp only: round_half_even_of_int)
  have "of_int (2 ^ 52) * u \<le> of_int (round_half_even (x / u)) * u"
    using a u by (intro mult_right_mono) (simp_all del: of_int_power of_int_numeral)
  then show "pow2 (binade x) \<le> round_double x" by (simp only: r pe e_def [symmetric])
  have "of_int (round_half_even (x / u)) * u \<le> of_int (2 ^ 53) * u"
    using b u by (intro mult_right_mono) (simp_all del: of_int_power of_int_numeral)
  then show "round_double x \<le> pow2 (binade x + 1)" by (simp only: r pe1 e_def [symmetric])
qed

lemma round_double_mono_pos:
  assumes "0 < x" and "x \<le> y"
  shows "round_double x \<le> round_double y"
proof (cases "binade x = binade y")
  case True
  define u where "u = pow2 (binade x - 52)"
  have u: "0 < u" by (simp add: u_def pow2_pos)
  have y: "0 < y" using assms by simp
  have "x / u \<le> y / u" using assms(2) u by (simp add: divide_right_mono)
  from round_half_even_mono [OF this]
  have "of_int (round_half_even (x / u)) * u \<le> of_int (round_half_even (y / u)) * u"
    using u by (intro mult_right_mono) simp_all
  then show ?thesis
    using assms(1) y by (simp add: round_double_def Let_def True [symmetric] u_def)
next
  case False
  with binade_mono [OF assms] have "binade x + 1 \<le> binade y" by simp
  then have "pow2 (binade x + 1) \<le> pow2 (binade y)" by (rule pow2_mono)
  moreover have "0 < y" using assms by simp
  ultimately show ?thesis
    using round_double_pos_range(2) [OF assms(1)] round_double_pos_range(1) [of y]
    by linarith
qed

lemma round_double_nonneg: "0 \<le> x \<Longrightarrow> 0 \<le> round_double x"
proof (cases "x = 0")
  case True
  then show ?thesis by (simp add: round_double_zero)
next
  case False
  assume "0 \<le> x"
  with False have "0 < x" by simp
  from round_double_pos_range(1) [OF this] pow2_pos [of "binade x"] show ?thesis by linarith
qed

lemma round_double_mono:
  assumes "x \<le> y"
  shows "round_double x \<le> round_double y"
proof -
  consider "0 < x" | "x \<le> 0" "0 \<le> y" | "y < 0" by linarith
  then show ?thesis
  proof cases
    case 1
    then show ?thesis using assms by (rule round_double_mono_pos)
  next
    case 2
    have "round_double x \<le> 0"
      using round_double_nonneg [of "- x"] 2(1) by (simp add: round_double_minus)
    moreover have "0 \<le> round_double y" using 2(2) by (rule round_double_nonneg)
    ultimately show ?thesis by linarith
  next
    case 3
    then have "0 < - y" "- y \<le> - x" using assms by simp_all
    from round_double_mono_pos [OF this] show ?thesis by (simp add: round_double_minus)
  qed
qed

lemma round_double_95: "round_double (95 / 100) = 4278419646001971 / 4503599627370496"
  by (subst round_double_eval [of "- 1"]) (simp_all add: pow2_def round_half_even_def)

lemma round_double_one: "round_double 1 = 1"
  by (subst round_double_eval [of 0]) (simp_all add: pow2_def round_half_even_def)

lemma round_double_consts:
  "round_double (7 / 10) = 3152519739159347 / 4503599627370496"
  "round_double (2 / 5) = 3602879701896397 / 9007199254740992"
  "round_double (4 / 5) = 3602879701896397 / 4503599627370496"
  "round_double (1 / 5) = 3602879701896397 / 18014398509481984"
  "round_double (1 / 10) = 3602879701896397 / 36028797018963968"
  "round_double (3 / 25) = 1080863910568919 / 9007199254740992"
  "round_double (1 / 2) = 1 / 2"
  "round_double 2 = 2"
proof -
  show "round_double (7 / 10) = 3152519739159347 / 4503599627370496"
    by (subst round_double_eval [of "- 1"]) (simp_all add: pow2_def round_half_even_def)
  show "round_double (2 / 5) = 3602879701896397 / 9007199254740992"
    by (subst round_double_eval [of "- 2"]) (simp_all add: pow2_def round_half_even_def)
  show "round_double (4 / 5) = 3602879701896397 / 4503599627370496"
    by (subst round_double_eval [of "- 1"]) (simp_all add: pow2_def round_half_even_def)
  show "round_double (1 / 5) = 3602879701896397 / 18014398509481984"
    by (subst round_double_eval [of "- 3"]) (simp_all add: pow2_def round_half_even_def)
  show "round_double (1 / 10) = 3602879701896397 / 36028797018963968"
    by (subst round_double_eval [of "- 4"]) (simp_all add: pow2_def round_half_even_def)
  show "round_double (3 / 25) = 1080863910568919 / 9007199254740992"
    by (subst round_double_eval [of "- 4"]) (simp_all add: pow2_def round_half_even_def)
  show "round_double (1 / 2) = 1 / 2"
    by (subst round_double_eval [of "- 1"]) (simp_all add: pow2_def round_half_even_def)
  show "round_double 2 = 2"
    by (subst round_double_eval [of 1]) (simp_all add: pow2_def round_half_even_def)
qed

subsection \<open>The decay of a count\<close>

lemma py_int_mono: "x \<le> y \<Longrightarrow> py_int x \<le> py_int y"
proof -
  assume a: "x \<le> y"
  consider "0 \<le> x" | "x < 0" "0 \<le> y" | "y < 0" by linarith
  then show ?thesis
  proof cases
    case 1
    then show ?thesis using a by (simp add: py_int_def floor_mono)
  next
    case 2
    have "\<lceil>x\<rceil> \<le> 0" using 2(1) by (simp add: ceiling_le_zero)
    moreover have "0 \<le> \<lfloor>y\<rfloor>" using 2(2) by simp
    ultimately have "\<lceil>x\<rceil> \<le> \<lfloor>y\<rfloor>" by (rule order_trans)
    moreover have "py_int x = \<lceil>x\<rceil>" "py_int y = \<lfloor>y\<rfloor>"
      using 2 by (simp_all add: py_int_def)
    ultimately show ?thesis by (simp only:)
  next
    case 3
    then show ?thesis using a by (simp add: py_int_def ceiling_mono)
  qed
qed

lemma decay_factor_pos: "0 \<le> round_double DECAY_FACTOR"
  by (rule round_double_nonneg) (simp add: DECAY_FACTOR_def)

lemma decay_count_mono:
  assumes "0 \<le> v" and "v \<le> t"
  shows "0 \<le> decay_count v \<and> decay_count v \<le> decay_count t"
proof -
  have "0 \<le> round_double (real_of_int v)"
    using assms(1) by (intro round_double_nonneg) simp
  then have "0 \<le> round_double (real_of_int v) * round_double DECAY_FACTOR"
    using decay_factor_pos by simp
  then have "0 \<le> round_double (round_double (real_of_int v) * round_double DECAY_FACTOR)"
    by (rule round_double_nonneg)
  then have a: "0 \<le> decay_count v" by (simp add: decay_count_def py_int_def)
  have "round_double (real_of_int v) \<le> round_double (real_of_int t)"
    using assms(2) by (intro round_double_mono) simp
  then have "round_double (real_of_int v) * round_double DECAY_FACTOR
               \<le> round_double (real_of_int t) * round_double DECAY_FACTOR"
    using decay_factor_pos by (rule mult_right_mono)
  then have "round_double (round_double (real_of_int v) * round_double DECAY_FACTOR)
               \<le> round_double (round_double (real_of_int t) * round_double DECAY_FACTOR)"
    by (rule round_double_mono)
  then have "decay_count v \<le> decay_count t"
    unfolding decay_count_def by (rule py_int_mono)
  with a show ?thesis by simp
qed

lemma decay_factor_value: "round_double DECAY_FACTOR = 4278419646001971 / 4503599627370496"
  unfolding DECAY_FACTOR_def by (rule round_double_95)

lemma py_int_nonneg: "0 \<le> x \<Longrightarrow> py_int x = \<lfloor>x\<rfloor>"
  by (simp add: py_int_def)




lemma decay_count_large: "decay_count 10000000000000050 = 9500000000000048"
proof -
  have a: "round_double (real_of_int 10000000000000050) = 10000000000000050"
    by (subst round_double_eval [of 53]) (simp_all add: pow2_def round_half_even_def)
  have b: "round_double (10000000000000050 * (4278419646001971 / 4503599627370496))
             = 9500000000000048"
    by (subst round_double_eval [of 53]) (simp_all add: pow2_def round_half_even_def)
  have "decay_count 10000000000000050 = py_int 9500000000000048"
    unfolding decay_count_def by (simp only: a decay_factor_value b)
  then show ?thesis by (simp add: py_int_def)
qed


section \<open>Pause classification\<close>

lemma rejection_count:
  "(\<Sum>e \<leftarrow> filter P xs. (1::int)) = int (length (filter P xs))"
  by (induction xs) simp_all

text \<open>
  C6. \<open>classify_pause\<close> checks the rules in order and returns the first match. With the
  duration in whole seconds: MICRO\_THINKING if \<open>d \<le> 180\<close> and \<open>i > 0.5\<close>; else
  PLANNING\_PAUSE if \<open>300 \<le> d \<le> 720\<close>; else CONTEXT\_SWITCH if at least two of the last
  five recorded pauses were rejected and shorter than 300 seconds, and \<open>d < 600\<close>; else
  BREAK if \<open>d > 900\<close>; else UNKNOWN. For \<open>d = 90\<close> and \<open>i = 0.8\<close> the result is
  MICRO\_THINKING (with any history, the empty one included), and for \<open>d = 600\<close> it is
  PLANNING\_PAUSE.
\<close>

theorem classify_pause_first_match:
  "classify_pause p d i =
     (if real_of_int d / 60 \<le> 3 \<and> i > 1 / 2 then MICRO_THINKING
      else if 5 \<le> real_of_int d / 60 \<and> real_of_int d / 60 \<le> 12 then PLANNING_PAUSE
      else if 2 \<le> length (filter (\<lambda>e. \<not> was_validated e \<and> duration_seconds e < 300)
                          (drop (length (recent_pauses p) - 5) (recent_pauses p)))
              \<and> real_of_int d / 60 < 10 then CONTEXT_SWITCH
      else if real_of_int d / 60 > 15 then BREAK
      else UNKNOWN) \<and>
   classify_pause p d i =
     (if d \<le> 180 \<and> i > 1 / 2 then MICRO_THINKING
      else if 300 \<le> d \<and> d \<le> 720 then PLANNING_PAUSE
      else if 2 \<le> length (filter (\<lambda>e. \<not> was_validated e \<and> duration_seconds e < 300)
                          (drop (length (recent_pauses p) - 5) (recent_pauses p)))
              \<and> d < 600 then CONTEXT_SWITCH
      else if d > 900 then BREAK
      else UNKNOWN) \<and>
   classify_pause (p\<lparr>recent_pauses := []\<rparr>) 90 (8 / 10) = MICRO_THINKING \<and>
   classify_pause p 90 (8 / 10) = MICRO_THINKING \<and>
   classify_pause p 600 i = PLANNING_PAUSE"
proof -
  have a: "classify_pause p d i =
     (if real_of_int d / 60 \<le> 3 \<and> i > 1 / 2 then MICRO_THINKING
      else if 5 \<le> real_of_int d / 60 \<and> real_of_int d / 60 \<le> 12 then PLANNING_PAUSE
      else if 2 \<le> length (filter (\<lambda>e. \<not> was_validated e \<and> duration_seconds e < 300)
                          (drop (length (recent_pauses p) - 5) (recent_pauses p)))
              \<and> real_of_int d / 60 < 10 then CONTEXT_SWITCH
      else if real_of_int d / 60 > 15 then BREAK
      else UNKNOWN)" for p d i
    by (simp add: classify_pause_def Let_def rejection_count py_last_n_def)
  have m: "real_of_int d / 60 \<le> 3 \<longleftrightarrow> d \<le> 180" "5 \<le> real_of_int d / 60 \<longleftrightarrow> 300 \<le> d"
    "real_of_int d / 60 \<le> 12 \<longleftrightarrow> d \<le> 720" "real_of_int d / 60 < 10 \<longleftrightarrow> d < 600"
    "real_of_int d / 60 > 15 \<longleftrightarrow> d > 900"
    by (simp_all add: field_simps)
  have b: "classify_pause p d i =
     (if d \<le> 180 \<and> i > 1 / 2 then MICRO_THINKING
      else if 300 \<le> d \<and> d \<le> 720 then PLANNING_PAUSE
      else if 2 \<le> length (filter (\<lambda>e. \<not> was_validated e \<and> duration_seconds e < 300)
                          (drop (length (recent_pauses p) - 5) (recent_pauses p)))
              \<and> d < 600 then CONTEXT_SWITCH
      else if d > 900 then BREAK
      else UNKNOWN)"
    unfolding a m ..
  have c: "classify_pause q 90 (8 / 10) = MICRO_THINKING" for q
    by (simp add: a)
  have d: "classify_pause p 600 i = PLANNING_PAUSE"
    by (simp add: a)
  show ?thesis
    by (intro conjI) (fact a, fact b, fact c, fact c, fact d)
qed

theorem classify_pause_first_match_witness:
  "classify_pause init_profile 90 (8 / 10) = MICRO_THINKING \<and>
   classify_pause init_profile 600 (1 / 2) = PLANNING_PAUSE \<and>
   classify_pause init_profile 1000 (1 / 2) = BREAK \<and>
   classify_pause init_profile 200 (1 / 2) = UNKNOWN"
  using classify_pause_first_match [of init_profile 1000 "1 / 2"]
    classify_pause_first_match [of init_profile 200 "1 / 2"]
  by (simp add: init_profile_def)


section \<open>Properties of the learning update\<close>

lemma bucket_ok_bump: "bucket_ok b \<Longrightarrow> bucket_ok (bump_bucket v b)"
  by (simp add: bucket_ok_def bump_bucket_def Let_def)

lemma bucket_ok_decay: "bucket_ok b \<Longrightarrow> bucket_ok (decay_bucket b)"
  using decay_count_mono [of "validated_count b" "total_count b"]
  by (simp add: bucket_ok_def decay_bucket_def)

lemma buckets_ok_dict_update:
  "buckets_ok bs \<Longrightarrow> (\<And>b. bucket_ok b \<Longrightarrow> bucket_ok (f b)) \<Longrightarrow> buckets_ok (dict_update k f bs)"
  by (induction bs) (auto simp: buckets_ok_def dict_update_def split: if_splits)

lemma buckets_ok_decay: "buckets_ok bs \<Longrightarrow> buckets_ok (apply_decay_to_buckets bs)"
  by (auto simp: buckets_ok_def apply_decay_to_buckets_def Let_def list_all_iff bucket_ok_decay)

lemma keys_dict_update: "map fst (dict_update k f bs) = map fst bs"
  by (induction bs) (auto simp: dict_update_def)

lemma keys_decay: "map fst (apply_decay_to_buckets bs) = map fst bs"
  by (induction bs) (auto simp: apply_decay_to_buckets_def Let_def)

lemma keys_dict_set_mem: "k \<in> fst ` set d \<Longrightarrow> map fst (dict_set k v d) = map fst d"
  by (induction d) (auto simp: dict_set_def)

lemma list_all_dict_set:
  "list_all (\<lambda>(k, v). P v) d \<Longrightarrow> P v \<Longrightarrow> list_all (\<lambda>(k, v). P v) (dict_set k v d)"
  by (auto simp: dict_set_def list_all_iff split: if_splits)

lemma map_of_replace:
  "k \<in> fst ` set d \<Longrightarrow>
   map_of (map (\<lambda>(k', v'). if k' = k then (k', v) else (k', v')) d) k = Some v"
proof (induction d)
  case Nil
  then show ?case by simp
next
  case (Cons e d)
  obtain a b where e: "e = (a, b)" by (cases e)
  show ?case
  proof (cases "a = k")
    case True
    then show ?thesis by (simp add: e)
  next
    case False
    with Cons.prems e have "k \<in> fst ` set d" by auto
    with Cons.IH False show ?thesis by (simp add: e)
  qed
qed

lemma map_of_dict_set_same: "map_of (dict_set k v d) k = Some v"
proof (cases "k \<in> fst ` set d")
  case True
  then show ?thesis by (simp add: dict_set_def map_of_replace)
next
  case False
  then have "map_of d k = None" by (simp add: map_of_eq_None_iff)
  with False show ?thesis by (simp add: dict_set_def map_add_def)
qed

lemma map_of_in_list_all:
  "list_all (\<lambda>(k, v). P v) d \<Longrightarrow> map_of d k = Some v \<Longrightarrow> P v"
  by (auto simp: list_all_iff dest: map_of_SomeD)

lemma update_project_modifier_ok:
  assumes "projects_ok pms"
  shows "\<exists>pms'. update_project_modifier pms h idle v = Inr pms' \<and> projects_ok pms'"
proof -
  define pms1 where "pms1 = (if h \<notin> fst ` set pms then dict_set h (new_project_modifier h) pms else pms)"
  have ok1: "projects_ok pms1"
    using assms unfolding pms1_def projects_ok_def
    by (auto intro: list_all_dict_set simp: new_project_modifier_def)
  have "h \<in> fst ` set pms1"
    unfolding pms1_def by (auto simp: dict_set_def)
  then obtain m where m: "map_of pms1 h = Some m"
    by (metis domD dom_map_of_conv_image_fst)
  then have mok: "0 \<le> pm_total_validations m"
    using ok1 unfolding projects_ok_def by (rule map_of_in_list_all [rotated])
  show ?thesis
  proof (cases v)
    case True
    have "projects_ok (dict_set h (m\<lparr>pm_total_validations := pm_total_validations m + 1,
         avg_validated_idle := x\<rparr>) pms1)" for x
      using ok1 mok unfolding projects_ok_def by (intro list_all_dict_set) simp_all
    with True m mok show ?thesis
      by (simp add: update_project_modifier_def Let_def pms1_def [symmetric])
  next
    case False
    have "projects_ok (dict_set h (m\<lparr>pm_total_rejections := pm_total_rejections m + 1\<rparr>) pms1)"
      using ok1 mok unfolding projects_ok_def by (intro list_all_dict_set) simp_all
    with False m show ?thesis
      by (simp add: update_project_modifier_def Let_def pms1_def [symmetric])
  qed
qed

lemma record_validation_returns_aux:
  assumes "get_bucket (buckets p) idle = Inr (k, b)"
    and "truthy proj \<longrightarrow>
           update_project_modifier (project_modifiers p) (the proj) idle v = Inr pms'"
    and "\<not> truthy proj \<longrightarrow> pms' = project_modifiers p"
  shows "\<exists>p'. record_validation p idle v proj now hour = Inr p' \<and>
              buckets p' = apply_decay_to_buckets (dict_update k (bump_bucket v) (buckets p)) \<and>
              project_modifiers p' = pms'"
proof (cases "truthy proj")
  case True
  with assms(2) have u: "update_project_modifier (project_modifiers p) (the proj) idle v = Inr pms'"
    by simp
  have "v = True \<or> v = False" by simp
  then show ?thesis
  proof
    assume v: "v = True"
    show ?thesis using u unfolding v
      by (simp add: record_validation_def Let_def assms(1) True)
  next
    assume v: "v = False"
    show ?thesis using u unfolding v
      by (simp add: record_validation_def Let_def assms(1) True)
  qed
next
  case False
  with assms(3) have u: "pms' = project_modifiers p" by simp
  have "v = True \<or> v = False" by simp
  then show ?thesis
  proof
    assume v: "v = True"
    show ?thesis unfolding v
      by (simp add: record_validation_def Let_def assms(1) False u)
  next
    assume v: "v = False"
    show ?thesis unfolding v
      by (simp add: record_validation_def Let_def assms(1) False u)
  qed
qed

lemma record_validation_returns:
  assumes "bucket_keys_ok (buckets p)" and "projects_ok (project_modifiers p)"
  shows "\<exists>p'. record_validation p idle v proj now hour = Inr p' \<and>
              buckets p' = apply_decay_to_buckets
                             (dict_update (bucket_key idle) (bump_bucket v) (buckets p)) \<and>
              projects_ok (project_modifiers p')"
proof -
  from get_bucket_ok [OF assms(1), of idle] obtain b where
    g: "get_bucket (buckets p) idle = Inr (bucket_key idle, b)" by blast
  from update_project_modifier_ok [OF assms(2), of "the proj" idle v] obtain pms1 where
    u: "update_project_modifier (project_modifiers p) (the proj) idle v = Inr pms1"
      "projects_ok pms1" by blast
  define pms' where "pms' = (if truthy proj then pms1 else project_modifiers p)"
  have ok: "projects_ok pms'" using u(2) assms(2) by (simp add: pms'_def)
  have "\<exists>p'. record_validation p idle v proj now hour = Inr p' \<and>
              buckets p' = apply_decay_to_buckets
                 (dict_update (bucket_key idle) (bump_bucket v) (buckets p)) \<and>
              project_modifiers p' = pms'"
    by (rule record_validation_returns_aux [OF g]) (simp_all add: pms'_def u(1))
  with ok show ?thesis by auto
qed





lemma bucket_total_nonneg: "buckets_ok bs \<Longrightarrow> 0 \<le> bucket_total bs"
  by (induction bs) (auto simp: buckets_ok_def bucket_total_def bucket_ok_def)



lemma apply_decay_fires:
  assumes "0 < bucket_total bs"
  shows "apply_decay_to_buckets bs =
           (if bucket_total bs mod 50 = 0 then map (\<lambda>(k, b). (k, decay_bucket b)) bs else bs)"
  using assms by (simp add: apply_decay_to_buckets_def Let_def)











lemma buckets_ok_init: "buckets_ok init_buckets"
  by (simp add: init_buckets_eq buckets_ok_def bucket_ok_def)

lemma init_profile_fields:
  "buckets init_profile = init_buckets" "project_modifiers init_profile = []"
  by (simp_all add: init_profile_def)



section \<open>The bucket invariant\<close>

lemma bucket_ok_load: "bucket_data_ok d \<Longrightarrow> bucket_ok (load_bucket d b)"
  by (simp add: bucket_data_ok_def bucket_ok_def load_bucket_def)

lemma load_fold_ok:
  assumes "buckets_ok bs"
    and "\<forall>(k, d) \<in> set items. k \<in> fst ` set bs \<longrightarrow> bucket_data_ok d"
  shows "buckets_ok (foldl (\<lambda>bs (key, b_data).
                              if key \<in> fst ` set bs
                              then dict_update key (load_bucket b_data) bs
                              else bs) bs items) \<and>
         map fst (foldl (\<lambda>bs (key, b_data).
                              if key \<in> fst ` set bs
                              then dict_update key (load_bucket b_data) bs
                              else bs) bs items) = map fst bs"
  using assms
proof (induction items arbitrary: bs)
  case Nil
  then show ?case by simp
next
  case (Cons e items)
  obtain k d where e: "e = (k, d)" by (cases e)
  define bs1 where "bs1 = (if k \<in> fst ` set bs then dict_update k (load_bucket d) bs else bs)"
  have keys1: "map fst bs1 = map fst bs"
    by (simp add: bs1_def keys_dict_update)
  then have set1: "fst ` set bs1 = fst ` set bs"
    by (metis set_map)
  have ok1: "buckets_ok bs1"
  proof (cases "k \<in> fst ` set bs")
    case True
    with Cons.prems(2) e have "bucket_data_ok d" by auto
    then have "buckets_ok (dict_update k (load_bucket d) bs)"
      using Cons.prems(1) by (intro buckets_ok_dict_update) (simp_all add: bucket_ok_load)
    with True show ?thesis by (simp add: bs1_def)
  next
    case False
    with Cons.prems(1) show ?thesis by (simp add: bs1_def)
  qed
  have rest: "\<forall>(k, d) \<in> set items. k \<in> fst ` set bs1 \<longrightarrow> bucket_data_ok d"
    using Cons.prems(2) by (simp add: set1)
  from Cons.IH [OF ok1 rest] keys1 show ?case
    by (simp add: e bs1_def [symmetric])
qed

lemma from_dict_buckets:
  "buckets (from_dict p data) =
     (if data = empty_data then buckets p
      else case pd_buckets data of
             None \<Rightarrow> buckets p
           | Some items \<Rightarrow>
               foldl (\<lambda>bs (key, b_data).
                        if key \<in> fst ` set bs
                        then dict_update key (load_bucket b_data) bs
                        else bs) (buckets p) items)"
  by (simp add: from_dict_def Let_def split: option.splits)

lemma from_dict_ok:
  assumes "buckets_ok (buckets p)"
    and "\<forall>items. pd_buckets data = Some items \<longrightarrow>
           (\<forall>(k, d) \<in> set items. k \<in> fst ` set (buckets p) \<longrightarrow> bucket_data_ok d)"
  shows "buckets_ok (buckets (from_dict p data)) \<and>
         map fst (buckets (from_dict p data)) = map fst (buckets p)"
proof (cases "pd_buckets data")
  case None
  then show ?thesis using assms(1) by (simp add: from_dict_buckets)
next
  case (Some items)
  with assms(2) have "\<forall>(k, d) \<in> set items. k \<in> fst ` set (buckets p) \<longrightarrow> bucket_data_ok d"
    by simp
  from load_fold_ok [OF assms(1) this] Some assms(1) show ?thesis
    by (simp add: from_dict_buckets)
qed

lemma bucket_to_data_ok: "bucket_data_ok (bucket_to_data b) \<longleftrightarrow> bucket_ok b"
  by (simp add: bucket_data_ok_def bucket_to_data_def bucket_ok_def dict_get_def)

lemma from_dict_to_dict_ok:
  assumes "buckets_ok (buckets p)" and "buckets_ok (buckets q)"
  shows "buckets_ok (buckets (from_dict p (to_dict q)))"
proof -
  have "\<forall>(k, d) \<in> set (map (\<lambda>(k, b). (k, bucket_to_data b)) (buckets q)). bucket_data_ok d"
    using assms(2) by (auto simp: buckets_ok_def list_all_iff bucket_to_data_ok)
  then have "\<forall>items. pd_buckets (to_dict q) = Some items \<longrightarrow>
           (\<forall>(k, d) \<in> set items. k \<in> fst ` set (buckets p) \<longrightarrow> bucket_data_ok d)"
    by (auto simp: to_dict_def)
  from from_dict_ok [OF assms(1) this] show ?thesis by simp
qed

lemma record_validation_ok:
  assumes "bucket_keys_ok (buckets p)" and "buckets_ok (buckets p)"
    and "projects_ok (project_modifiers p)"
  shows "\<exists>p'. record_validation p idle v proj now hour = Inr p' \<and>
              bucket_keys_ok (buckets p') \<and> buckets_ok (buckets p') \<and>
              projects_ok (project_modifiers p')"
proof -
  from record_validation_returns [OF assms(1,3), of idle v proj now hour] obtain p' where
    r: "record_validation p idle v proj now hour = Inr p'"
       "buckets p' = apply_decay_to_buckets
                       (dict_update (bucket_key idle) (bump_bucket v) (buckets p))"
       "projects_ok (project_modifiers p')" by blast
  have "map fst (buckets p') = map fst (buckets p)"
    by (simp add: r(2) keys_decay keys_dict_update)
  then have k: "bucket_keys_ok (buckets p')"
    using assms(1) by (simp add: bucket_keys_ok_def)
  have "buckets_ok (dict_update (bucket_key idle) (bump_bucket v) (buckets p))"
    using assms(2) by (rule buckets_ok_dict_update) (rule bucket_ok_bump)
  then have "buckets_ok (buckets p')"
    unfolding r(2) by (rule buckets_ok_decay)
  with r(1,3) k show ?thesis by blast
qed

lemma record_validations_ok:
  assumes "bucket_keys_ok (buckets p)" and "buckets_ok (buckets p)"
    and "projects_ok (project_modifiers p)"
  shows "\<exists>p'. record_validations p calls = Inr p' \<and>
              bucket_keys_ok (buckets p') \<and> buckets_ok (buckets p') \<and>
              projects_ok (project_modifiers p')"
  using assms
proof (induction calls arbitrary: p)
  case Nil
  then show ?case by simp
next
  case (Cons c calls)
  obtain idle v proj now hour where c: "c = (idle, v, proj, now, hour)"
    by (cases c)
  from record_validation_ok [OF Cons.prems, of idle v proj now hour] obtain p1 where
    p1: "record_validation p idle v proj now hour = Inr p1"
      "bucket_keys_ok (buckets p1)" "buckets_ok (buckets p1)"
      "projects_ok (project_modifiers p1)" by blast
  from Cons.IH [OF p1(2,3,4)] p1(1) show ?case
    by (simp add: c)
qed


text \<open>
  Bucket counts are assigned in three places only: \<open>__init__\<close> (through
  \<open>_init_buckets\<close>), \<open>record_validation\<close> (the increment and the decay) and
  \<open>from_dict\<close>.
\<close>

text \<open>
  C8, as amended. The bucket invariant (\<open>0 \<le> validated_count \<le> total_count\<close> in every
  bucket) holds for the initial all-zero table; \<open>record_validation\<close>, decay included,
  returns on a well-formed profile and preserves it, so it holds after every sequence of
  \<open>record_validation\<close> calls on the initial profile. \<open>from_dict\<close> copies the stored counts
  without checking them: it preserves the invariant when every stored entry under a known
  bucket key satisfies it (a missing field counting as 0), and hence when the data was
  written by \<open>to_dict\<close> from a profile that satisfies it.
\<close>

theorem bucket_invariant_preserved:
  "buckets_ok (buckets init_profile) \<and>
   (bucket_keys_ok (buckets p) \<and> buckets_ok (buckets p) \<and> projects_ok (project_modifiers p) \<longrightarrow>
      (\<exists>p'. record_validation p idle v proj now hour = Inr p' \<and>
            bucket_keys_ok (buckets p') \<and> buckets_ok (buckets p') \<and>
            projects_ok (project_modifiers p'))) \<and>
   (\<exists>p'. record_validations init_profile calls = Inr p' \<and> buckets_ok (buckets p')) \<and>
   (buckets_ok (buckets p) \<and>
    (\<forall>items. pd_buckets data = Some items \<longrightarrow>
       (\<forall>(k, d) \<in> set items. k \<in> fst ` set (buckets p) \<longrightarrow> bucket_data_ok d)) \<longrightarrow>
      buckets_ok (buckets (from_dict p data))) \<and>
   (buckets_ok (buckets p) \<and> buckets_ok (buckets q) \<longrightarrow>
      buckets_ok (buckets (from_dict p (to_dict q))))"
proof -
  have i: "buckets_ok (buckets init_profile)"
    by (simp add: init_profile_fields buckets_ok_init)
  have r: "bucket_keys_ok (buckets p) \<and> buckets_ok (buckets p) \<and>
           projects_ok (project_modifiers p) \<longrightarrow>
      (\<exists>p'. record_validation p idle v proj now hour = Inr p' \<and>
            bucket_keys_ok (buckets p') \<and> buckets_ok (buckets p') \<and>
            projects_ok (project_modifiers p'))"
    using record_validation_ok [of p idle v proj now hour] by blast
  have "\<exists>p'. record_validations init_profile calls = Inr p' \<and>
              bucket_keys_ok (buckets p') \<and> buckets_ok (buckets p') \<and>
              projects_ok (project_modifiers p')"
    by (rule record_validations_ok)
       (simp_all add: init_profile_fields bucket_keys_ok_init buckets_ok_init projects_ok_def)
  then have s: "\<exists>p'. record_validations init_profile calls = Inr p' \<and> buckets_ok (buckets p')"
    by blast
  have f: "buckets_ok (buckets p) \<and>
    (\<forall>items. pd_buckets data = Some items \<longrightarrow>
       (\<forall>(k, d) \<in> set items. k \<in> fst ` set (buckets p) \<longrightarrow> bucket_data_ok d)) \<longrightarrow>
      buckets_ok (buckets (from_dict p data))"
    using from_dict_ok [of p data] by blast
  have t: "buckets_ok (buckets p) \<and> buckets_ok (buckets q) \<longrightarrow>
      buckets_ok (buckets (from_dict p (to_dict q)))"
    using from_dict_to_dict_ok [of p q] by blast
  show ?thesis
    by (intro conjI) (fact i, fact r, fact s, fact f, fact t)
qed

theorem bucket_invariant_preserved_witness:
  "bucket_keys_ok (buckets init_profile) \<and> buckets_ok (buckets init_profile) \<and>
   projects_ok (project_modifiers init_profile) \<and>
   (\<exists>p'. record_validation init_profile 90 True (Some ''abc'') 0 10 = Inr p' \<and>
         bucket_keys_ok (buckets p') \<and> buckets_ok (buckets p') \<and>
         projects_ok (project_modifiers p')) \<and>
   buckets_ok (buckets (from_dict init_profile (to_dict init_profile)))"
proof -
  have h: "bucket_keys_ok (buckets init_profile)" "buckets_ok (buckets init_profile)"
    "projects_ok (project_modifiers init_profile)"
    by (simp_all add: init_profile_fields bucket_keys_ok_init buckets_ok_init projects_ok_def)
  note t = bucket_invariant_preserved
    [of init_profile 90 True "Some ''abc''" 0 10 "[]" empty_data init_profile]
  from t h have a: "\<exists>p'. record_validation init_profile 90 True (Some ''abc'') 0 10 = Inr p' \<and>
         bucket_keys_ok (buckets p') \<and> buckets_ok (buckets p') \<and>
         projects_ok (project_modifiers p')"
    by blast
  from t h have b: "buckets_ok (buckets (from_dict init_profile (to_dict init_profile)))"
    by blast
  show ?thesis
    by (intro conjI) (fact h(1), fact h(2), fact h(3), fact a, fact b)
qed

text \<open>
  The claim as first stated covered every load. A stored table whose entry for the first
  bucket has a validated count of 1 and no total is loaded with the default total 0: the
  bucket then holds total 0 and validated 1.
\<close>

theorem from_dict_breaks_invariant_counterexample:
  "buckets_ok (buckets init_profile) \<and>
   map_of (buckets (from_dict init_profile partial_data)) ''0-180'' =
     Some \<lparr>min_seconds = 0, max_seconds = 180, total_count = 0, validated_count = 1\<rparr> \<and>
   \<not> buckets_ok (buckets (from_dict init_profile partial_data))"
proof -
  have ne: "partial_data \<noteq> empty_data"
    by (simp add: partial_data_def empty_data_def)
  have b: "buckets (from_dict init_profile partial_data) =
     [(''0-180'', \<lparr>min_seconds = 0, max_seconds = 180, total_count = 0, validated_count = 1\<rparr>),
      (''180-420'', \<lparr>min_seconds = 180, max_seconds = 420, total_count = 0, validated_count = 0\<rparr>),
      (''420-900'', \<lparr>min_seconds = 420, max_seconds = 900, total_count = 0, validated_count = 0\<rparr>),
      (''900-1500'', \<lparr>min_seconds = 900, max_seconds = 1500, total_count = 0, validated_count = 0\<rparr>),
      (''1500-3600'', \<lparr>min_seconds = 1500, max_seconds = 3600, total_count = 0, validated_count = 0\<rparr>)]"
    by (simp add: from_dict_buckets ne)
       (simp add: partial_data_def empty_data_def init_profile_fields init_buckets_eq
          dict_update_def load_bucket_def dict_get_def)
  have i: "buckets_ok (buckets init_profile)"
    by (simp add: init_profile_fields buckets_ok_init)
  have m: "map_of (buckets (from_dict init_profile partial_data)) ''0-180'' =
     Some \<lparr>min_seconds = 0, max_seconds = 180, total_count = 0, validated_count = 1\<rparr>"
    by (simp only: b) simp
  have n: "\<not> buckets_ok (buckets (from_dict init_profile partial_data))"
    by (simp only: b) (simp add: buckets_ok_def bucket_ok_def)
  show ?thesis
    by (intro conjI) (fact i, fact m, fact n)
qed


section \<open>Properties of the confidence score\<close>





lemma confidence_raises_on_excess:
  "confidence \<lparr>min_seconds = 0, max_seconds = 180, total_count = 1, validated_count = 5\<rparr>
     = Inl ValueError"
  by (simp add: confidence_def validation_rate_def Let_def)










section \<open>Properties of the trust level\<close>

lemma trust_level_unfold:
  "get_trust_level p =
     (if total_validations p + total_rejections p < 10 then 0
      else min 1
        (round_double
           (round_double
              (round_double
                 (min 1 (round_double
                           (real_of_int (total_validations p + total_rejections p) / 100))
                  * round_double (4 / 10))
               + round_double
                   (round_double
                      (\<bar>round_double
                          (round_double
                             (real_of_int (total_validations p)
                                / real_of_int (total_validations p + total_rejections p))
                           - 1 / 2)\<bar> * 2)
                    * round_double (4 / 10)))
            + min (round_double (2 / 10))
                  (round_double (real_of_int (longest_validated_streak p) / 50)))))"
  by (simp add: get_trust_level_def MIN_SAMPLES_FOR_AUTO_def Let_def)


lemma trust_level_eval:
  assumes "\<not> total_validations p + total_rejections p < 10"
    and "min 1 (round_double (real_of_int (total_validations p + total_rejections p) / 100)) = A"
    and "round_double (\<bar>round_double (round_double (real_of_int (total_validations p)
            / real_of_int (total_validations p + total_rejections p)) - 1 / 2)\<bar> * 2) = B"
    and "min (round_double (2 / 10))
             (round_double (real_of_int (longest_validated_streak p) / 50)) = C"
    and "round_double (4 / 10) = E"
    and "round_double (A * E) = F"
    and "round_double (B * E) = G"
    and "round_double (F + G) = H"
    and "round_double (H + C) = I"
  shows "get_trust_level p = min 1 I"
  unfolding trust_level_unfold using assms(1) by (simp only: assms(2-9) if_False)






text \<open>
  The rounding decides the threshold: with 70 validations, no rejection and a longest
  streak of 6 the exact sum is 0.8, the computed one is the double just below the double
  0.8, and no notification is used.
\<close>

lemma trust_level_below_threshold:
  "get_trust_level (init_profile\<lparr>total_validations := 70, longest_validated_streak := 6,
                                 implicit_trust_enabled := True\<rparr>)
     = 7205759403792793 / 9007199254740992 \<and>
   \<not> should_use_notification (init_profile\<lparr>total_validations := 70,
                                         longest_validated_streak := 6,
                                         implicit_trust_enabled := True\<rparr>)"
proof -
  define p where "p = init_profile\<lparr>total_validations := 70, longest_validated_streak := 6,
                        implicit_trust_enabled := True\<rparr>"
  have f: "total_validations p = 70" "total_rejections p = 0"
    "longest_validated_streak p = 6" "implicit_trust_enabled p"
    by (simp_all add: p_def init_profile_def)
  have v: "get_trust_level p = min 1 (7205759403792793 / 9007199254740992)"
  proof (rule trust_level_eval)
    show "\<not> total_validations p + total_rejections p < 10" by (simp add: f)
    show "min 1 (round_double (real_of_int (total_validations p + total_rejections p) / 100))
            = 3152519739159347 / 4503599627370496"
      by (simp add: f round_double_consts)
    show "round_double (\<bar>round_double (round_double (real_of_int (total_validations p)
            / real_of_int (total_validations p + total_rejections p)) - 1 / 2)\<bar> * 2) = 1"
      by (simp add: f round_double_one round_double_consts)
    show "min (round_double (2 / 10))
             (round_double (real_of_int (longest_validated_streak p) / 50))
           = 1080863910568919 / 9007199254740992"
      by (simp add: f round_double_consts)
    show "round_double (4 / 10) = 3602879701896397 / 9007199254740992"
      by (simp add: round_double_consts)
    show "round_double (3152519739159347 / 4503599627370496
                        * (3602879701896397 / 9007199254740992))
            = 5044031582654955 / 18014398509481984"
      by (subst round_double_eval [of "- 2"]) (simp_all add: pow2_def round_half_even_def)
    show "round_double (1 * (3602879701896397 / 9007199254740992))
            = 3602879701896397 / 9007199254740992"
      by (subst round_double_eval [of "- 2"]) (simp_all add: pow2_def round_half_even_def)
    show "round_double (5044031582654955 / 18014398509481984
                        + 3602879701896397 / 9007199254740992)
            = 3062447746611937 / 4503599627370496"
      by (subst round_double_eval [of "- 1"]) (simp_all add: pow2_def round_half_even_def)
    show "round_double (3062447746611937 / 4503599627370496
                        + 1080863910568919 / 9007199254740992)
            = 7205759403792793 / 9007199254740992"
      by (subst round_double_eval [of "- 1"]) (simp_all add: pow2_def round_half_even_def)
  qed
  then have g: "get_trust_level p = 7205759403792793 / 9007199254740992" by simp
  have "\<not> should_use_notification p"
    by (simp add: should_use_notification_def TRUST_LEVEL_HIGH_def g round_double_consts)
  with g have "get_trust_level p = 7205759403792793 / 9007199254740992 \<and>
      \<not> should_use_notification p" by simp
  then show ?thesis unfolding p_def .
qed

end
